theory Spec2Isabelle
  imports Complex_Main "HOL-Library.Word"
begin

unbundle bit_operations_syntax

section \<open>Errors\<close>

text \<open>
  The renderer reports failure in three ways, each a value of \<open>error\<close>:
  \<^item> \<open>check\<close> throws a \<open>std::system_error\<close> that carries the native \<open>VkResult\<close>;
  \<^item> configuration checks throw \<open>std::runtime_error\<close> with a message;
  \<^item> \<open>fail_fast()\<close> is declared \<open>noreturn\<close>: nothing after it runs.
  Reads that C++ leaves undefined (a vector index out of range, a null material, a
  division by zero, the conversion of minus infinity to an unsigned integer) are the
  value \<open>Undefined_behaviour\<close>, so that no theorem rests on what HOL returns there.
\<close>

type_synonym VkResult = int

datatype error =
    System_error VkResult
  | Runtime_error string
  | Fail_fast
  | Undefined_behaviour

text \<open>
  The values of the \<open>VkResult\<close> enumerators are those of the Vulkan header, which is
  outside the repository.
\<close>

definition VK_SUCCESS :: VkResult where
  "VK_SUCCESS = 0"

definition VK_ERROR_OUT_OF_HOST_MEMORY :: VkResult where
  "VK_ERROR_OUT_OF_HOST_MEMORY = - 1"

definition VK_ERROR_OUT_OF_DEVICE_MEMORY :: VkResult where
  "VK_ERROR_OUT_OF_DEVICE_MEMORY = - 2"

text \<open>
  \<open>to_string\<close> (renderer.cpp, lines 44 to 76): the name of a status in its table; for
  any other status the \<open>default\<close> case calls \<open>fail_fast()\<close>.
\<close>

definition to_string_cases :: "(VkResult \<times> string) list" where
  "to_string_cases =
     [(0, ''VK_SUCCESS''), (1, ''VK_NOT_READY''), (2, ''VK_TIMEOUT''), (3, ''VK_EVENT_SET''),
      (4, ''VK_EVENT_RESET''), (5, ''VK_INCOMPLETE''),
      (- 1, ''VK_ERROR_OUT_OF_HOST_MEMORY''), (- 2, ''VK_ERROR_OUT_OF_DEVICE_MEMORY''),
      (- 3, ''VK_ERROR_INITIALIZATION_FAILED''), (- 4, ''VK_ERROR_DEVICE_LOST''),
      (- 5, ''VK_ERROR_MEMORY_MAP_FAILED''), (- 6, ''VK_ERROR_LAYER_NOT_PRESENT''),
      (- 7, ''VK_ERROR_EXTENSION_NOT_PRESENT''), (- 8, ''VK_ERROR_FEATURE_NOT_PRESENT''),
      (- 9, ''VK_ERROR_INCOMPATIBLE_DRIVER''), (- 10, ''VK_ERROR_TOO_MANY_OBJECTS''),
      (- 11, ''VK_ERROR_FORMAT_NOT_SUPPORTED''), (- 12, ''VK_ERROR_FRAGMENTED_POOL''),
      (- 1000000000, ''VK_ERROR_SURFACE_LOST_KHR''),
      (- 1000000001, ''VK_ERROR_NATIVE_WINDOW_IN_USE_KHR''),
      (1000001003, ''VK_SUBOPTIMAL_KHR''),
      (- 1000001004, ''VK_ERROR_OUT_OF_DATE_KHR''),
      (- 1000003001, ''VK_ERROR_INCOMPATIBLE_DISPLAY_KHR''),
      (- 1000011001, ''VK_ERROR_VALIDATION_FAILED_EXT''),
      (- 1000012000, ''VK_ERROR_INVALID_SHADER_NV''),
      (- 1000069000, ''VK_ERROR_OUT_OF_POOL_MEMORY_KHR'')]"

definition to_string :: "VkResult \<Rightarrow> error + string" where
  "to_string result =
     (case map_of to_string_cases result of
        Some s \<Rightarrow> Inr s
      | None \<Rightarrow> Inl Fail_fast)"

text \<open>
  \<open>check\<close> (renderer.cpp, lines 85 to 91): a non-success status is thrown as a
  \<open>std::system_error\<close> that carries it. The constructor of \<open>std::system_error\<close> asks
  the error category for the message, \<open>vulkan_error::message\<close> (line 81), which is
  \<open>to_string\<close> of the status: for a status outside the table the construction of the
  exception ends in \<open>fail_fast()\<close> and nothing is thrown.
\<close>

definition check :: "VkResult \<Rightarrow> error + unit" where
  "check result =
     (if result \<noteq> VK_SUCCESS
      then (case to_string result of
              Inl e \<Rightarrow> Inl e
            | Inr message \<Rightarrow> Inl (System_error result))
      else Inr ())"

text \<open>
  \<open>narrow\<close> comes from utility.h, which is not among the sources: it converts a
  64-bit \<open>size_t\<close> to the 32-bit integer a Vulkan structure wants, and what it does
  with a value that does not fit is not known here. It is a parameter of every function
  that calls it. \<open>narrow_exact\<close> says that it keeps the values that fit.
\<close>

type_synonym narrow_fn = "64 word \<Rightarrow> error + 32 word"

definition narrow_exact :: "narrow_fn \<Rightarrow> bool" where
  "narrow_exact narrow \<longleftrightarrow> (\<forall>x. unat x < 2 ^ 32 \<longrightarrow> narrow x = Inr (ucast x))"

text \<open>One such conversion, for the examples: it throws when the value does not fit.\<close>

definition checked_narrow :: narrow_fn where
  "checked_narrow x =
     (if unat x < 2 ^ 32 then Inr (ucast x) else Inl (Runtime_error ''narrowing conversion''))"

text \<open>
  The outcome of a member function that mutates its object: the error that ended it
  (\<open>None\<close> when it returned) and the object as the call left it.
\<close>

type_synonym 'a outcome = "error option \<times> 'a"

section \<open>Texture: length of the mip chain\<close>

record VkExtent3D =
  width :: "32 word"
  height :: "32 word"
  depth :: "32 word"

text \<open>
  \<open>texture::texture\<close> (renderer.cpp, line 465) computes
  \<open>1 + static_cast<uint32_t>(std::ceil(std::log2(std::max({width, height, depth}))))\<close>.
  The argument of \<open>std::log2\<close> is a 32-bit unsigned integer converted to \<open>double\<close>
  exactly; two neighbouring integers below \<open>2 ^ 32\<close> have logarithms that differ by
  far more than the precision of a \<open>double\<close>, so the rounded-up result is the
  mathematical \<open>\<lceil>log 2 n\<rceil>\<close>. \<open>ceil_log2\<close> computes that integer (lemma
  \<open>ceil_log2_is_ceiling_log\<close> below). For \<open>n = 0\<close> the logarithm is minus infinity
  and its conversion to \<open>uint32_t\<close> is undefined.
\<close>

fun ceil_log2 :: "nat \<Rightarrow> nat" where
  "ceil_log2 n = (if n \<le> 1 then 0 else Suc (ceil_log2 ((n + 1) div 2)))"

declare ceil_log2.simps [simp del]

definition texture_mipLevels :: "VkExtent3D \<Rightarrow> error + nat" where
  "texture_mipLevels extent =
     (let m = max (width extent) (max (height extent) (depth extent))
      in if m = 0 then Inl Undefined_behaviour else Inr (1 + ceil_log2 (unat m)))"

text \<open>
  \<open>renderer::create_texture_2d\<close> (renderer.cpp, line 1201) passes the extent
  \<open>{width, height, 1}\<close>.
\<close>

definition create_texture_2d_mipLevels :: "32 word \<Rightarrow> 32 word \<Rightarrow> error + nat" where
  "create_texture_2d_mipLevels w h = texture_mipLevels \<lparr>width = w, height = h, depth = 1\<rparr>"

text \<open>
  The specification's formula, in its own words: the chain of a \<open>W\<times>H\<close> texture has
  \<open>1 + floor(log2(max(W,H)))\<close> levels. \<open>floor_log2 n\<close> is the number of times \<open>n\<close> can
  be halved (rounding down) before it reaches 1.
\<close>

fun floor_log2 :: "nat \<Rightarrow> nat" where
  "floor_log2 n = (if n \<le> 1 then 0 else Suc (floor_log2 (n div 2)))"

declare floor_log2.simps [simp del]

definition spec_mip_chain_length :: "nat \<Rightarrow> nat \<Rightarrow> nat" where
  "spec_mip_chain_length W H = 1 + floor_log2 (max W H)"

text \<open>
  The sizes the blit loop of \<open>texture::texture\<close> gives the levels (renderer.cpp, lines
  498 to 508): each level halves the previous one, rounding down, never below 1.
\<close>

fun mip_dim :: "nat \<Rightarrow> nat \<Rightarrow> nat" where
  "mip_dim d 0 = d"
| "mip_dim d (Suc i) = max (mip_dim d i div 2) 1"

section \<open>dynamic_buffer: the linear allocator\<close>

type_synonym VkDeviceSize = "64 word"
type_synonym VkBuffer = "64 word"

record VkDescriptorBufferInfo =
  bi_buffer :: VkBuffer
  bi_offset :: VkDeviceSize
  bi_range :: VkDeviceSize

text \<open>
  The fields of \<open>dynamic_buffer\<close> that its member functions read and write
  (renderer.cpp, lines 597 to 624): the buffer handle, \<open>mem_reqs.alignment\<close>, \<open>offset\<close>
  and \<open>range\<close>. The last two fill the \<open>VkDeviceSize\<close> fields of the descriptor that
  \<open>end\<close> returns; like the alignment they are unsigned 64-bit integers, whose
  arithmetic wraps around. The bytes of \<open>mapped_memory\<close> are not part of the model:
  \<open>write\<close> copies \<open>size\<close> bytes to \<open>mapped_memory + offset + range\<close>, and the model
  keeps the bookkeeping that decides where that is.
\<close>

record dynamic_buffer =
  db_buffer :: VkBuffer
  db_alignment :: VkDeviceSize
  db_offset :: VkDeviceSize
  db_range :: VkDeviceSize

definition dynamic_buffer_reset :: "dynamic_buffer \<Rightarrow> dynamic_buffer" where
  "dynamic_buffer_reset b = b\<lparr>db_offset := 0, db_range := 0\<rparr>"

text \<open>
  \<open>begin\<close> divides by \<open>mem_reqs.alignment\<close>; a zero alignment is a division by zero,
  which C++ leaves undefined.
\<close>

definition dynamic_buffer_begin :: "dynamic_buffer \<Rightarrow> error + dynamic_buffer" where
  "dynamic_buffer_begin b =
     (if db_alignment b = 0 then Inl Undefined_behaviour
      else Inr (b\<lparr>db_offset := db_offset b
                      + (db_range b + db_alignment b - 1) div db_alignment b * db_alignment b,
                    db_range := 0\<rparr>))"

definition dynamic_buffer_write :: "64 word \<Rightarrow> dynamic_buffer \<Rightarrow> dynamic_buffer" where
  "dynamic_buffer_write sz b = b\<lparr>db_range := db_range b + sz\<rparr>"

definition dynamic_buffer_end :: "dynamic_buffer \<Rightarrow> VkDescriptorBufferInfo" where
  "dynamic_buffer_end b =
     \<lparr>bi_buffer = db_buffer b, bi_offset = db_offset b, bi_range = db_range b\<rparr>"

definition dynamic_buffer_upload ::
  "64 word \<Rightarrow> dynamic_buffer \<Rightarrow> error + (VkDescriptorBufferInfo \<times> dynamic_buffer)" where
  "dynamic_buffer_upload sz b =
     (case dynamic_buffer_begin b of
        Inl e \<Rightarrow> Inl e
      | Inr b1 \<Rightarrow> (let b2 = dynamic_buffer_write sz b1 in Inr (dynamic_buffer_end b2, b2)))"

subsection \<open>Sequences of calls\<close>

datatype db_op = Reset | Begin | Write "64 word" | End

text \<open>
  A region is the byte range \<open>[offset, offset + range)\<close> of the buffer that belonged to
  one \<open>begin()\<close> call, together with the number of \<open>reset()\<close> calls made before it.
\<close>

record region =
  epoch :: nat
  r_offset :: VkDeviceSize
  r_range :: VkDeviceSize

text \<open>
  A run of the allocator: the buffer, the regions that later calls have left behind
  (\<open>begin()\<close> and \<open>reset()\<close> both leave the current region), the descriptors that
  \<open>end()\<close> returned, and the number of resets so far.
\<close>

record alloc_run =
  cur :: dynamic_buffer
  closed :: "region list"
  returned :: "VkDescriptorBufferInfo list"
  resets :: nat

definition current_region :: "alloc_run \<Rightarrow> region" where
  "current_region r =
     \<lparr>epoch = resets r, r_offset = db_offset (cur r), r_range = db_range (cur r)\<rparr>"

definition regions :: "alloc_run \<Rightarrow> region list" where
  "regions r = closed r @ [current_region r]"

definition start :: "dynamic_buffer \<Rightarrow> alloc_run" where
  "start b = \<lparr>cur = b, closed = [], returned = [], resets = 0\<rparr>"

fun step :: "alloc_run \<Rightarrow> db_op \<Rightarrow> error + alloc_run" where
  "step r Reset =
     Inr (r\<lparr>cur := dynamic_buffer_reset (cur r),
            closed := closed r @ [current_region r],
            resets := Suc (resets r)\<rparr>)"
| "step r Begin =
     (case dynamic_buffer_begin (cur r) of
        Inl e \<Rightarrow> Inl e
      | Inr b \<Rightarrow> Inr (r\<lparr>cur := b, closed := closed r @ [current_region r]\<rparr>))"
| "step r (Write sz) = Inr (r\<lparr>cur := dynamic_buffer_write sz (cur r)\<rparr>)"
| "step r End = Inr (r\<lparr>returned := returned r @ [dynamic_buffer_end (cur r)]\<rparr>)"

fun run :: "alloc_run \<Rightarrow> db_op list \<Rightarrow> error + alloc_run" where
  "run r [] = Inr r"
| "run r (x # xs) = (case step r x of Inl e \<Rightarrow> Inl e | Inr r' \<Rightarrow> run r' xs)"

definition regions_after :: "dynamic_buffer \<Rightarrow> db_op list \<Rightarrow> region list" where
  "regions_after b ops = (case run (start b) ops of Inl e \<Rightarrow> [] | Inr r \<Rightarrow> regions r)"

text \<open>Two regions overlap when their half-open byte ranges share a byte.\<close>

definition regions_overlap :: "region \<Rightarrow> region \<Rightarrow> bool" where
  "regions_overlap x y \<longleftrightarrow>
     max (unat (r_offset x)) (unat (r_offset y))
       < min (unat (r_offset x) + unat (r_range x)) (unat (r_offset y) + unat (r_range y))"

text \<open>
  The space a sequence of calls asks for, counted without any bound on the integers:
  the bytes written plus the padding that rounds each region up to the alignment.
  \<open>within_capacity\<close> says that this total, counted from the last reset, never exceeds
  the capacity.
\<close>

definition round_up :: "nat \<Rightarrow> nat \<Rightarrow> nat" where
  "round_up a n = (n + a - 1) div a * a"

fun demand_step :: "nat \<Rightarrow> nat \<times> nat \<Rightarrow> db_op \<Rightarrow> nat \<times> nat" where
  "demand_step a (off, rng) Reset = (0, 0)"
| "demand_step a (off, rng) Begin = (off + round_up a rng, 0)"
| "demand_step a (off, rng) (Write sz) = (off, rng + unat sz)"
| "demand_step a (off, rng) End = (off, rng)"

fun within_capacity :: "nat \<Rightarrow> nat \<Rightarrow> nat \<times> nat \<Rightarrow> db_op list \<Rightarrow> bool" where
  "within_capacity cap a s [] = (fst s + snd s \<le> cap)"
| "within_capacity cap a s (x # xs) =
     (fst s + snd s \<le> cap \<and> within_capacity cap a (demand_step a s x) xs)"

text \<open>
  The device reports an alignment that is a power of two; in 64 bits that is a nonzero
  divisor of \<open>2 ^ 64\<close>.
\<close>

definition valid_alignment :: "VkDeviceSize \<Rightarrow> bool" where
  "valid_alignment a \<longleftrightarrow> a \<noteq> 0 \<and> unat a dvd 2 ^ 64"

text \<open>
  The invariant of a run that stays within capacity: the current region and every
  returned descriptor end within the capacity, every earlier region of the current
  epoch ends at or before the current offset, and earlier regions of one epoch are
  pairwise disjoint.
\<close>

fun disjoint_regions :: "region list \<Rightarrow> bool" where
  "disjoint_regions [] = True"
| "disjoint_regions (x # xs) =
     ((\<forall>y \<in> set xs. epoch x = epoch y \<longrightarrow> \<not> regions_overlap x y) \<and> disjoint_regions xs)"

definition run_inv :: "nat \<Rightarrow> alloc_run \<Rightarrow> bool" where
  "run_inv cap r \<longleftrightarrow>
     unat (db_offset (cur r)) + unat (db_range (cur r)) \<le> cap
     \<and> (\<forall>d \<in> set (returned r). unat (bi_offset d) + unat (bi_range d) \<le> cap)
     \<and> (\<forall>x \<in> set (closed r). epoch x \<le> resets r
           \<and> (epoch x = resets r \<longrightarrow>
                unat (r_offset x) + unat (r_range x) \<le> unat (db_offset (cur r))))
     \<and> disjoint_regions (closed r)"

definition demand_of :: "dynamic_buffer \<Rightarrow> nat \<times> nat" where
  "demand_of b = (unat (db_offset b), unat (db_range b))"

text \<open>A buffer with the alignment 16, freshly reset, used in the examples.\<close>

definition example_buffer :: dynamic_buffer where
  "example_buffer = \<lparr>db_buffer = 7, db_alignment = 16, db_offset = 0, db_range = 0\<rparr>"

section \<open>transient_resource_pool\<close>

type_synonym VkCommandBuffer = "64 word"
type_synonym VkDescriptorSet = "64 word"

text \<open>
  The members of \<open>transient_resource_pool\<close> that \<open>reset\<close> touches (renderer.cpp, lines
  661 to 680): the handles recorded for the bulk free and the three linear allocators.
\<close>

record transient_resource_pool =
  pool_command_buffers :: "VkCommandBuffer list"
  pool_descriptor_sets :: "VkDescriptorSet list"
  pool_uniform_buffer :: dynamic_buffer
  pool_vertex_buffer :: dynamic_buffer
  pool_index_buffer :: dynamic_buffer

text \<open>
  The device is outside the program: what its four status-returning calls answer during
  one \<open>reset\<close> is an input of the model.
\<close>

record reset_device_results =
  vkWaitForFences :: VkResult
  vkResetFences :: VkResult
  vkResetCommandPool :: VkResult
  vkResetDescriptorPool :: VkResult

text \<open>
  \<open>transient_resource_pool::reset\<close> (renderer.cpp, lines 661 to 680), statement by
  statement. An exception leaves the pool as the statements before it made it. The two
  bulk frees narrow the size of the vector before the device is called, and clear the
  vector after it; \<open>vkFreeCommandBuffers\<close> returns nothing and the status that
  \<open>vkFreeDescriptorSets\<close> returns is not looked at.
\<close>

definition free_command_buffers ::
  "narrow_fn \<Rightarrow> transient_resource_pool \<Rightarrow> transient_resource_pool outcome" where
  "free_command_buffers narrow p =
     (if pool_command_buffers p \<noteq> []
      then (case narrow (of_nat (length (pool_command_buffers p))) of
              Inl e \<Rightarrow> (Some e, p)
            | Inr _ \<Rightarrow> (None, p\<lparr>pool_command_buffers := []\<rparr>))
      else (None, p))"

definition free_descriptor_sets ::
  "narrow_fn \<Rightarrow> transient_resource_pool \<Rightarrow> transient_resource_pool outcome" where
  "free_descriptor_sets narrow p =
     (if pool_descriptor_sets p \<noteq> []
      then (case narrow (of_nat (length (pool_descriptor_sets p))) of
              Inl e \<Rightarrow> (Some e, p)
            | Inr _ \<Rightarrow> (None, p\<lparr>pool_descriptor_sets := []\<rparr>))
      else (None, p))"

definition transient_resource_pool_reset ::
  "narrow_fn \<Rightarrow> reset_device_results \<Rightarrow> transient_resource_pool
     \<Rightarrow> transient_resource_pool outcome" where
  "transient_resource_pool_reset narrow dev p =
     (case check (vkWaitForFences dev) of
        Inl e \<Rightarrow> (Some e, p)
      | Inr _ \<Rightarrow>
     (case check (vkResetFences dev) of
        Inl e \<Rightarrow> (Some e, p)
      | Inr _ \<Rightarrow>
     (case free_command_buffers narrow p of
        (Some e, p1) \<Rightarrow> (Some e, p1)
      | (None, p1) \<Rightarrow>
     (case check (vkResetCommandPool dev) of
        Inl e \<Rightarrow> (Some e, p1)
      | Inr _ \<Rightarrow>
     (case free_descriptor_sets narrow p1 of
        (Some e, p2) \<Rightarrow> (Some e, p2)
      | (None, p2) \<Rightarrow>
     (case check (vkResetDescriptorPool dev) of
        Inl e \<Rightarrow> (Some e, p2)
      | Inr _ \<Rightarrow>
          (None, p2\<lparr>pool_uniform_buffer := dynamic_buffer_reset (pool_uniform_buffer p2),
                     pool_vertex_buffer := dynamic_buffer_reset (pool_vertex_buffer p2),
                     pool_index_buffer := dynamic_buffer_reset (pool_index_buffer p2)\<rparr>)))))))"

definition all_succeed :: "reset_device_results \<Rightarrow> bool" where
  "all_succeed dev \<longleftrightarrow>
     vkWaitForFences dev = VK_SUCCESS \<and> vkResetFences dev = VK_SUCCESS
     \<and> vkResetCommandPool dev = VK_SUCCESS \<and> vkResetDescriptorPool dev = VK_SUCCESS"

definition allocators :: "transient_resource_pool \<Rightarrow> dynamic_buffer list" where
  "allocators p = [pool_uniform_buffer p, pool_vertex_buffer p, pool_index_buffer p]"

definition example_pool :: transient_resource_pool where
  "example_pool =
     \<lparr>pool_command_buffers = [1, 2], pool_descriptor_sets = [3],
      pool_uniform_buffer = \<lparr>db_buffer = 7, db_alignment = 256, db_offset = 512, db_range = 64\<rparr>,
      pool_vertex_buffer = \<lparr>db_buffer = 8, db_alignment = 16, db_offset = 32, db_range = 20\<rparr>,
      pool_index_buffer = \<lparr>db_buffer = 9, db_alignment = 4, db_offset = 0, db_range = 12\<rparr>\<rparr>"

text \<open>The example pool after a reset.\<close>

definition example_pool_reset :: transient_resource_pool where
  "example_pool_reset =
     \<lparr>pool_command_buffers = [], pool_descriptor_sets = [],
      pool_uniform_buffer = \<lparr>db_buffer = 7, db_alignment = 256, db_offset = 0, db_range = 0\<rparr>,
      pool_vertex_buffer = \<lparr>db_buffer = 8, db_alignment = 16, db_offset = 0, db_range = 0\<rparr>,
      pool_index_buffer = \<lparr>db_buffer = 9, db_alignment = 4, db_offset = 0, db_range = 0\<rparr>\<rparr>"

definition device_ok :: reset_device_results where
  "device_ok = \<lparr>vkWaitForFences = 0, vkResetFences = 0, vkResetCommandPool = 0,
                 vkResetDescriptorPool = 0\<rparr>"

section \<open>Scene contract, material, descriptor set\<close>

type_synonym VkDescriptorSetLayout = "64 word"
type_synonym VkPipelineLayout = "64 word"
type_synonym VkPipeline = "64 word"

text \<open>
  \<open>draw_list::draw\<close> compares contracts by address
  (\<open>&descriptors.get_material().get_contract() != &contract\<close>), so every contract of
  the model carries the address of the C++ object it stands for. Render passes are
  referred to by address as well.

  The classes are declared in renderer.h, which is not among the sources; the records
  hold the members that renderer.cpp reads and writes, and an accessor \<open>get_x()\<close> is
  read as the member \<open>x\<close>.
\<close>

type_synonym address = nat

record scene_contract =
  contract_address :: address
  render_passes :: "address list"
  shared_layouts :: "VkDescriptorSetLayout list"
  example_layout :: VkPipelineLayout

record scene_material =
  mat_contract :: scene_contract
  per_object_layout :: VkDescriptorSetLayout
  pipeline_layout :: VkPipelineLayout
  pipelines :: "VkPipeline list"

text \<open>
  \<open>scene_descriptor_set\<close> (renderer.cpp, lines 1080 and 1081): built from a layout
  alone, its \<open>material\<close> pointer is null; built from a material, it points to it.
\<close>

record scene_descriptor_set =
  sds_material :: "scene_material option"
  sds_layout :: VkDescriptorSetLayout
  sds_set :: VkDescriptorSet

section \<open>Draw list\<close>

text \<open>
  Modelled from the spec: \<open>struct draw_item\<close> is declared in renderer.h, which is not
  among the sources. The specification gives a DrawItem as (material, descriptor set,
  at most 4 vertex-buffer bindings with byte offsets, one index-buffer binding, first
  index, index count, instance count); the member names are those renderer.cpp assigns
  (\<open>material\<close> and \<open>set\<close> carry the prefix \<open>item_\<close> here). The two arrays have 4
  elements. The counts passed on to \<open>vkCmdDrawIndexed\<close> are 32-bit.
\<close>

record draw_item =
  item_material :: scene_material
  item_set :: VkDescriptorSet
  vertex_buffer_count :: nat
  vertex_buffers :: "VkBuffer list"
  vertex_buffer_offsets :: "VkDeviceSize list"
  index_buffer :: VkBuffer
  index_buffer_offset :: VkDeviceSize
  first_index :: "32 word"
  index_count :: "32 word"
  instance_count :: "32 word"

record draw_list =
  dl_contract :: scene_contract
  items :: "draw_item list"

text \<open>
  \<open>draw_item item {&descriptors.get_material(), descriptors.get_descriptor_set()}\<close>:
  the members without an initializer are zero.
\<close>

definition new_draw_item :: "scene_material \<Rightarrow> VkDescriptorSet \<Rightarrow> draw_item" where
  "new_draw_item mat s =
     \<lparr>item_material = mat, item_set = s, vertex_buffer_count = 0,
      vertex_buffers = [0, 0, 0, 0], vertex_buffer_offsets = [0, 0, 0, 0],
      index_buffer = 0, index_buffer_offset = 0,
      first_index = 0, index_count = 0, instance_count = 0\<rparr>"

text \<open>
  The loop of the first \<open>draw\<close> overload (renderer.cpp, lines 1103 to 1107) stores the
  bindings \<open>i = 0, 1, \<dots>\<close> while \<open>i < vertex_buffers.size() && i < 4\<close>.
\<close>

function store_vertex_buffers ::
  "nat \<Rightarrow> VkDescriptorBufferInfo list \<Rightarrow> draw_item \<Rightarrow> draw_item" where
  "store_vertex_buffers i vbs item =
     (if i < length vbs \<and> i < 4
      then store_vertex_buffers (Suc i) vbs
             (item\<lparr>vertex_buffers := (vertex_buffers item)[i := bi_buffer (vbs ! i)],
                   vertex_buffer_offsets := (vertex_buffer_offsets item)[i := bi_offset (vbs ! i)]\<rparr>)
      else item)"
  by pat_completeness auto
termination
  by (relation "measure (\<lambda>(i, vbs, item). 4 - i)") auto

declare store_vertex_buffers.simps [simp del]

text \<open>
  \<open>draw_list::draw(descriptors, vertex_buffers, index_buffer, index_count,
  instance_count)\<close> (renderer.cpp, lines 1097 to 1114).
\<close>

definition draw_buffers ::
  "narrow_fn \<Rightarrow> scene_descriptor_set \<Rightarrow> VkDescriptorBufferInfo list \<Rightarrow> VkDescriptorBufferInfo
     \<Rightarrow> 64 word \<Rightarrow> 64 word \<Rightarrow> draw_list \<Rightarrow> draw_list outcome" where
  "draw_buffers narrow descriptors vbs ib n_indices n_instances dl =
     (case sds_material descriptors of
        None \<Rightarrow> (Some Undefined_behaviour, dl)
      | Some mat \<Rightarrow>
          if contract_address (mat_contract mat) \<noteq> contract_address (dl_contract dl)
          then (Some Fail_fast, dl)
          else
            let item0 = (new_draw_item mat (sds_set descriptors))
                          \<lparr>vertex_buffer_count := length vbs\<rparr>;
                item1 = store_vertex_buffers 0 vbs item0;
                item2 = item1\<lparr>index_buffer := bi_buffer ib, index_buffer_offset := bi_offset ib,
                              first_index := 0\<rparr>
            in case narrow n_indices of
                 Inl e \<Rightarrow> (Some e, dl)
               | Inr ic \<Rightarrow>
                   (case narrow n_instances of
                      Inl e \<Rightarrow> (Some e, dl)
                    | Inr nc \<Rightarrow>
                        (None, dl\<lparr>items := items dl
                                  @ [item2\<lparr>index_count := ic, instance_count := nc\<rparr>]\<rparr>)))"

text \<open>
  The mesh data that \<open>draw\<close> reads: the per-material triangle ranges of \<open>mesh\<close>
  (data-types.h, line 122) and the two buffers of \<open>gfx_mesh\<close>.
\<close>

record mesh_material =
  name :: string
  first_triangle :: "64 word"
  num_triangles :: "64 word"

record gfx_mesh =
  mesh_vertex_buffer :: VkBuffer
  mesh_index_buffer :: VkBuffer
  materials :: "mesh_material list"

text \<open>
  The loop over \<open>mtls\<close> (renderer.cpp, lines 1129 to 1134). An index beyond
  \<open>mesh.m.materials\<close> is an out-of-range read of a \<open>std::vector\<close>. An error thrown by
  \<open>narrow\<close> leaves the items pushed so far in the list.
\<close>

fun draw_materials ::
  "narrow_fn \<Rightarrow> gfx_mesh \<Rightarrow> draw_item \<Rightarrow> nat list \<Rightarrow> draw_list \<Rightarrow> draw_list outcome" where
  "draw_materials narrow mesh item [] dl = (None, dl)"
| "draw_materials narrow mesh item (mtl # mtls) dl =
     (if length (materials mesh) \<le> mtl then (Some Undefined_behaviour, dl)
      else case narrow (first_triangle (materials mesh ! mtl) * 3) of
             Inl e \<Rightarrow> (Some e, dl)
           | Inr fi \<Rightarrow>
               (case narrow (num_triangles (materials mesh ! mtl) * 3) of
                  Inl e \<Rightarrow> (Some e, dl)
                | Inr ic \<Rightarrow>
                    (let item' = item\<lparr>first_index := fi, index_count := ic\<rparr>
                     in draw_materials narrow mesh item' mtls
                          (dl\<lparr>items := items dl @ [item']\<rparr>))))"

text \<open>
  \<open>draw_list::draw(descriptors, mesh, mtls, instances, instance_stride)\<close>
  (renderer.cpp, lines 1116 to 1135).
\<close>

definition draw_mesh_subset_instanced ::
  "narrow_fn \<Rightarrow> scene_descriptor_set \<Rightarrow> gfx_mesh \<Rightarrow> nat list \<Rightarrow> VkDescriptorBufferInfo
     \<Rightarrow> 64 word \<Rightarrow> draw_list \<Rightarrow> draw_list outcome" where
  "draw_mesh_subset_instanced narrow descriptors mesh mtls instances instance_stride dl =
     (case sds_material descriptors of
        None \<Rightarrow> (Some Undefined_behaviour, dl)
      | Some mat \<Rightarrow>
          if contract_address (mat_contract mat) \<noteq> contract_address (dl_contract dl)
          then (Some Fail_fast, dl)
          else
            let item0 = (new_draw_item mat (sds_set descriptors))
                          \<lparr>vertex_buffer_count := (if instance_stride \<noteq> 0 then 2 else 1)\<rparr>;
                item1 = item0\<lparr>vertex_buffers :=
                                (vertex_buffers item0)[0 := mesh_vertex_buffer mesh,
                                                       1 := bi_buffer instances],
                              vertex_buffer_offsets :=
                                (vertex_buffer_offsets item0)[0 := 0, 1 := bi_offset instances],
                              index_buffer := mesh_index_buffer mesh,
                              index_buffer_offset := 0\<rparr>
            in case narrow (if instance_stride \<noteq> 0 then bi_range instances div instance_stride
                            else 1) of
                 Inl e \<Rightarrow> (Some e, dl)
               | Inr nc \<Rightarrow> draw_materials narrow mesh (item1\<lparr>instance_count := nc\<rparr>) mtls dl)"

text \<open>The value-initialized \<open>VkDescriptorBufferInfo\<close> that \<open>{}\<close> passes.\<close>

definition no_buffer_info :: VkDescriptorBufferInfo where
  "no_buffer_info = \<lparr>bi_buffer = 0, bi_offset = 0, bi_range = 0\<rparr>"

text \<open>The three remaining overloads (renderer.cpp, lines 1137 to 1152).\<close>

definition draw_mesh_instanced ::
  "narrow_fn \<Rightarrow> scene_descriptor_set \<Rightarrow> gfx_mesh \<Rightarrow> VkDescriptorBufferInfo \<Rightarrow> 64 word
     \<Rightarrow> draw_list \<Rightarrow> draw_list outcome" where
  "draw_mesh_instanced narrow descriptors mesh instances instance_stride dl =
     draw_mesh_subset_instanced narrow descriptors mesh [0 ..< length (materials mesh)]
       instances instance_stride dl"

definition draw_mesh_subset ::
  "narrow_fn \<Rightarrow> scene_descriptor_set \<Rightarrow> gfx_mesh \<Rightarrow> nat list \<Rightarrow> draw_list \<Rightarrow> draw_list outcome" where
  "draw_mesh_subset narrow descriptors mesh mtls dl =
     draw_mesh_subset_instanced narrow descriptors mesh mtls no_buffer_info 0 dl"

definition draw_mesh ::
  "narrow_fn \<Rightarrow> scene_descriptor_set \<Rightarrow> gfx_mesh \<Rightarrow> draw_list \<Rightarrow> draw_list outcome" where
  "draw_mesh narrow descriptors mesh dl =
     draw_mesh_instanced narrow descriptors mesh no_buffer_info 0 dl"

section \<open>Material: the per-object descriptor set layout\<close>

text \<open>
  The reflected type of a shader descriptor (data-types.h, lines 165 to 181) is a variant
  of sampler, numeric, array and structure. \<open>get_descriptor_set_layout_binding\<close> reads
  which alternative it is and, of an array, the element type and the length; the other
  members are left out.
\<close>

datatype shader_type =
    Sampler
  | Numeric
  | Array shader_type "32 word"
  | Structure

record descriptor =
  d_set :: "32 word"
  d_binding :: "32 word"
  d_name :: string
  d_type :: shader_type

text \<open>A shader stage: its stage flag and its descriptors, as \<open>shader_info\<close> holds them.\<close>

record shader =
  shader_stage :: "32 word"
  shader_descriptors :: "descriptor list"

datatype VkDescriptorType = COMBINED_IMAGE_SAMPLER | UNIFORM_BUFFER

record VkDescriptorSetLayoutBinding =
  binding :: "32 word"
  descriptorType :: VkDescriptorType
  descriptorCount :: "32 word"
  stageFlags :: "32 word"

text \<open>\<open>get_descriptor_set_layout_binding\<close> (renderer.cpp, lines 1017 to 1027).\<close>

fun get_descriptor_set_layout_binding ::
  "32 word \<Rightarrow> shader_type \<Rightarrow> 32 word \<Rightarrow> VkDescriptorSetLayoutBinding" where
  "get_descriptor_set_layout_binding n (Array element len) stage_flags =
     (let b = get_descriptor_set_layout_binding n element stage_flags
      in b\<lparr>descriptorCount := descriptorCount b * len\<rparr>)"
| "get_descriptor_set_layout_binding n Sampler stage_flags =
     \<lparr>binding = n, descriptorType = COMBINED_IMAGE_SAMPLER, descriptorCount = 1,
      stageFlags = stage_flags\<rparr>"
| "get_descriptor_set_layout_binding n t stage_flags =
     \<lparr>binding = n, descriptorType = UNIFORM_BUFFER, descriptorCount = 1,
      stageFlags = stage_flags\<rparr>"

text \<open>
  The search of \<open>per_object_bindings\<close> for the binding of \<open>db\<close> (renderer.cpp, lines 1045
  to 1055): the first entry with the same binding number must agree on type and count
  and takes the stage flags in; without such an entry \<open>db\<close> is appended.
\<close>

fun merge_binding ::
  "VkDescriptorSetLayoutBinding \<Rightarrow> VkDescriptorSetLayoutBinding list
     \<Rightarrow> error + VkDescriptorSetLayoutBinding list" where
  "merge_binding db [] = Inr [db]"
| "merge_binding db (b # bs) =
     (if binding b \<noteq> binding db
      then (case merge_binding db bs of Inl e \<Rightarrow> Inl e | Inr bs' \<Rightarrow> Inr (b # bs'))
      else if descriptorType b \<noteq> descriptorType db
      then Inl (Runtime_error ''descriptor type mismatch'')
      else if descriptorCount b \<noteq> descriptorCount db
      then Inl (Runtime_error ''descriptor count mismatch'')
      else Inr (b\<lparr>stageFlags := stageFlags b OR stageFlags db\<rparr> # bs))"

text \<open>The loop over the descriptors of one stage (lines 1040 to 1056).\<close>

fun merge_descriptors ::
  "32 word \<Rightarrow> 32 word \<Rightarrow> descriptor list \<Rightarrow> VkDescriptorSetLayoutBinding list
     \<Rightarrow> error + VkDescriptorSetLayoutBinding list" where
  "merge_descriptors k stage_flag [] bs = Inr bs"
| "merge_descriptors k stage_flag (d # ds) bs =
     (if d_set d \<noteq> k then merge_descriptors k stage_flag ds bs
      else case merge_binding
                  (get_descriptor_set_layout_binding (d_binding d) (d_type d) stage_flag) bs of
             Inl e \<Rightarrow> Inl e
           | Inr bs' \<Rightarrow> merge_descriptors k stage_flag ds bs')"

text \<open>The loop over the stages (lines 1036 to 1057).\<close>

fun merge_stages ::
  "32 word \<Rightarrow> shader list \<Rightarrow> VkDescriptorSetLayoutBinding list
     \<Rightarrow> error + VkDescriptorSetLayoutBinding list" where
  "merge_stages k [] bs = Inr bs"
| "merge_stages k (s # ss) bs =
     (case merge_descriptors k (shader_stage s) (shader_descriptors s) bs of
        Inl e \<Rightarrow> Inl e
      | Inr bs' \<Rightarrow> merge_stages k ss bs')"

text \<open>
  The first part of \<open>scene_material::scene_material\<close> (lines 1033 to 1057): the
  per-object set index is the number of shared layouts, narrowed, and the bindings start
  empty.
\<close>

definition per_object_bindings ::
  "narrow_fn \<Rightarrow> scene_contract \<Rightarrow> shader list
     \<Rightarrow> error + VkDescriptorSetLayoutBinding list" where
  "per_object_bindings narrow contract stages =
     (case narrow (of_nat (length (shared_layouts contract))) of
        Inl e \<Rightarrow> Inl e
      | Inr per_object_descriptor_set_index \<Rightarrow>
          merge_stages per_object_descriptor_set_index stages [])"

text \<open>
  The declarations that take part in the merge, in the order the loops visit them: of
  every stage, the descriptors of set \<open>k\<close>, each as the binding derived from it.
\<close>

definition stage_declarations :: "32 word \<Rightarrow> shader \<Rightarrow> VkDescriptorSetLayoutBinding list" where
  "stage_declarations k s =
     map (\<lambda>d. get_descriptor_set_layout_binding (d_binding d) (d_type d) (shader_stage s))
       (filter (\<lambda>d. d_set d = k) (shader_descriptors s))"

definition declarations :: "32 word \<Rightarrow> shader list \<Rightarrow> VkDescriptorSetLayoutBinding list" where
  "declarations k stages = concat (map (stage_declarations k) stages)"

text \<open>The union (bitwise or) of the stage flags of the declarations of binding \<open>n\<close>.\<close>

fun union_flags :: "32 word \<Rightarrow> VkDescriptorSetLayoutBinding list \<Rightarrow> 32 word" where
  "union_flags n [] = 0"
| "union_flags n (d # ds) =
     (if binding d = n then stageFlags d OR union_flags n ds else union_flags n ds)"

text \<open>Merging a list of declarations one after the other.\<close>

fun merge_all ::
  "VkDescriptorSetLayoutBinding list \<Rightarrow> VkDescriptorSetLayoutBinding list
     \<Rightarrow> error + VkDescriptorSetLayoutBinding list" where
  "merge_all [] bs = Inr bs"
| "merge_all (d # ds) bs =
     (case merge_binding d bs of Inl e \<Rightarrow> Inl e | Inr bs' \<Rightarrow> merge_all ds bs')"

text \<open>The first entry of a binding list for the binding number \<open>n\<close>.\<close>

fun entry :: "32 word \<Rightarrow> VkDescriptorSetLayoutBinding list \<Rightarrow> VkDescriptorSetLayoutBinding option" where
  "entry n [] = None"
| "entry n (b # bs) = (if binding b = n then Some b else entry n bs)"

text \<open>Two declarations of one binding number agree on descriptor type and count.\<close>

definition agree :: "VkDescriptorSetLayoutBinding \<Rightarrow> VkDescriptorSetLayoutBinding \<Rightarrow> bool" where
  "agree d1 d2 \<longleftrightarrow>
     (binding d1 = binding d2
        \<longrightarrow> descriptorType d1 = descriptorType d2 \<and> descriptorCount d1 = descriptorCount d2)"

text \<open>
  Example stages: a vertex stage (flag 1) and a fragment stage (flag 16) that both
  declare binding 3 of set 1 as a uniform buffer of count 1, and a fragment stage that
  declares it as a sampler.
\<close>

definition vertex_stage :: shader where
  "vertex_stage =
     \<lparr>shader_stage = 1,
      shader_descriptors = [\<lparr>d_set = 0, d_binding = 0, d_name = ''PerView'', d_type = Structure\<rparr>,
                     \<lparr>d_set = 1, d_binding = 3, d_name = ''PerObject'', d_type = Structure\<rparr>]\<rparr>"

definition fragment_stage :: shader where
  "fragment_stage =
     \<lparr>shader_stage = 16,
      shader_descriptors = [\<lparr>d_set = 1, d_binding = 3, d_name = ''PerObject'', d_type = Structure\<rparr>,
                     \<lparr>d_set = 1, d_binding = 1, d_name = ''u_albedo'', d_type = Sampler\<rparr>]\<rparr>"

definition sampler_stage :: shader where
  "sampler_stage =
     \<lparr>shader_stage = 16,
      shader_descriptors = [\<lparr>d_set = 1, d_binding = 3, d_name = ''u_albedo'', d_type = Sampler\<rparr>]\<rparr>"

section \<open>Recording a draw list\<close>

text \<open>
  The commands that \<open>write_commands\<close> records, with the arguments that vary. A command
  buffer is the list of the commands recorded into it so far.
\<close>

datatype command =
    CmdBindDescriptorSets VkPipelineLayout "32 word" "VkDescriptorSet list"
  | CmdBindPipeline VkPipeline
  | CmdBindVertexBuffers "VkBuffer list" "VkDeviceSize list"
  | CmdBindIndexBuffer VkBuffer VkDeviceSize
  | CmdDrawIndexed "32 word" "32 word" "32 word"

text \<open>
  The wrapper \<open>vkCmdBindDescriptorSets\<close> (renderer.cpp, line 858) narrows the two
  array sizes before it calls the device; there are no dynamic offsets.
\<close>

definition vkCmdBindDescriptorSets ::
  "narrow_fn \<Rightarrow> VkPipelineLayout \<Rightarrow> 32 word \<Rightarrow> VkDescriptorSet list \<Rightarrow> command list
     \<Rightarrow> command list outcome" where
  "vkCmdBindDescriptorSets narrow layout firstSet descriptorSets cmd =
     (case narrow (of_nat (length descriptorSets)) of
        Inl e \<Rightarrow> (Some e, cmd)
      | Inr _ \<Rightarrow>
          (case narrow 0 of
             Inl e \<Rightarrow> (Some e, cmd)
           | Inr _ \<Rightarrow> (None, cmd @ [CmdBindDescriptorSets layout firstSet descriptorSets])))"

text \<open>
  The validation loop of \<open>write_commands\<close> (renderer.cpp, lines 1162 to 1166), over the
  supplied sets paired with the contract's layouts at the same index; \<open>sets\<close> is the
  local vector it fills.
\<close>

fun collect_shared_sets ::
  "(scene_descriptor_set \<times> VkDescriptorSetLayout) list \<Rightarrow> VkDescriptorSet list
     \<Rightarrow> error + VkDescriptorSet list" where
  "collect_shared_sets [] sets = Inr sets"
| "collect_shared_sets ((d, l) # rest) sets =
     (if sds_layout d \<noteq> l then Inl (Runtime_error ''contract violation'')
      else collect_shared_sets rest (sets @ [sds_set d]))"

text \<open>
  The body of the loop over the items (renderer.cpp, lines 1174 to 1178).
  \<open>get_pipeline(i)\<close> reads \<open>pipelines[i]\<close>. \<open>vkCmdBindVertexBuffers\<close> is handed the
  two 4-element arrays and \<open>vertex_buffer_count\<close>: a count above 4 makes the device read
  past their end.
\<close>

definition write_item ::
  "narrow_fn \<Rightarrow> nat \<Rightarrow> nat \<Rightarrow> draw_item \<Rightarrow> command list \<Rightarrow> command list outcome" where
  "write_item narrow render_pass_index n_shared item cmd =
     (if length (pipelines (item_material item)) \<le> render_pass_index
      then (Some Undefined_behaviour, cmd)
      else
        let cmd1 = cmd @ [CmdBindPipeline (pipelines (item_material item) ! render_pass_index)]
        in case narrow (of_nat n_shared) of
             Inl e \<Rightarrow> (Some e, cmd1)
           | Inr firstSet \<Rightarrow>
               (case vkCmdBindDescriptorSets narrow (pipeline_layout (item_material item))
                       firstSet [item_set item] cmd1 of
                  (Some e, cmd2) \<Rightarrow> (Some e, cmd2)
                | (None, cmd2) \<Rightarrow>
                    if 4 < vertex_buffer_count item then (Some Undefined_behaviour, cmd2)
                    else (None, cmd2
                           @ [CmdBindVertexBuffers
                                (take (vertex_buffer_count item) (vertex_buffers item))
                                (take (vertex_buffer_count item) (vertex_buffer_offsets item)),
                              CmdBindIndexBuffer (index_buffer item) (index_buffer_offset item),
                              CmdDrawIndexed (index_count item) (instance_count item)
                                (first_index item)])))"

fun write_items ::
  "narrow_fn \<Rightarrow> nat \<Rightarrow> nat \<Rightarrow> draw_item list \<Rightarrow> command list \<Rightarrow> command list outcome" where
  "write_items narrow render_pass_index n_shared [] cmd = (None, cmd)"
| "write_items narrow render_pass_index n_shared (item # rest) cmd =
     (case write_item narrow render_pass_index n_shared item cmd of
        (Some e, cmd') \<Rightarrow> (Some e, cmd')
      | (None, cmd') \<Rightarrow> write_items narrow render_pass_index n_shared rest cmd')"

text \<open>
  \<open>draw_list::write_commands\<close> (renderer.cpp, lines 1154 to 1180).
  \<open>scene_contract::get_render_pass_index\<close> is declared in renderer.h, which is not among
  the sources: it is the parameter \<open>get_render_pass_index\<close>, from the contract and the
  address of the render pass to an index or an error.
\<close>

definition write_commands ::
  "narrow_fn \<Rightarrow> (scene_contract \<Rightarrow> address \<Rightarrow> error + nat) \<Rightarrow> draw_list \<Rightarrow> address
     \<Rightarrow> scene_descriptor_set list \<Rightarrow> command list \<Rightarrow> command list outcome" where
  "write_commands narrow get_render_pass_index dl render_pass shared_descriptors cmd =
     (let contract_layouts = shared_layouts (dl_contract dl) in
      if length shared_descriptors \<noteq> length contract_layouts
      then (Some (Runtime_error ''contract violation''), cmd)
      else
        case (if 0 < length shared_descriptors
              then (case collect_shared_sets (zip shared_descriptors contract_layouts) [] of
                      Inl e \<Rightarrow> (Some e, cmd)
                    | Inr sets \<Rightarrow>
                        vkCmdBindDescriptorSets narrow (example_layout (dl_contract dl)) 0 sets cmd)
              else (None, cmd)) of
          (Some e, cmd1) \<Rightarrow> (Some e, cmd1)
        | (None, cmd1) \<Rightarrow>
            (case get_render_pass_index (dl_contract dl) render_pass of
               Inl e \<Rightarrow> (Some e, cmd1)
             | Inr render_pass_index \<Rightarrow>
                 write_items narrow render_pass_index (length shared_descriptors) (items dl) cmd1))"

text \<open>A lookup by address, for the examples: the position of the pass in the contract.\<close>

fun index_of :: "address \<Rightarrow> address list \<Rightarrow> nat \<Rightarrow> error + nat" where
  "index_of a [] i = Inl Fail_fast"
| "index_of a (x # xs) i = (if x = a then Inr i else index_of a xs (Suc i))"

definition lookup_render_pass :: "scene_contract \<Rightarrow> address \<Rightarrow> error + nat" where
  "lookup_render_pass c pass = index_of pass (render_passes c) 0"

section \<open>Device calls\<close>

text \<open>
  The device is outside the program. What it answers to the status-returning calls of
  one constructor run is an input of the model: one \<open>VkResult\<close> per function, each of
  which a constructor calls at most once.
\<close>

record device_results =
  vkCreateBuffer :: VkResult
  vkAllocateMemory :: VkResult
  vkBindBufferMemory :: VkResult
  vkMapMemory :: VkResult
  vkCreateCommandPool :: VkResult
  vkAllocateCommandBuffers :: VkResult
  vkBeginCommandBuffer :: VkResult
  vkEndCommandBuffer :: VkResult
  vkQueueSubmit :: VkResult
  vkQueueWaitIdle :: VkResult

record VkMemoryRequirements =
  mr_size :: VkDeviceSize
  mr_alignment :: VkDeviceSize
  memoryTypeBits :: "32 word"

text \<open>
  \<open>context::select_memory_type\<close> (renderer.cpp, lines 231 to 241), over the property
  flags of the memory types from index \<open>i\<close> on.
\<close>

fun select_memory_type_from ::
  "32 word list \<Rightarrow> nat \<Rightarrow> VkMemoryRequirements \<Rightarrow> 32 word \<Rightarrow> error + nat" where
  "select_memory_type_from [] i reqs props = Inl (Runtime_error ''no suitable memory type'')"
| "select_memory_type_from (propertyFlags # rest) i reqs props =
     (if bit (memoryTypeBits reqs) i \<and> propertyFlags AND props = props then Inr i
      else select_memory_type_from rest (Suc i) reqs props)"

definition select_memory_type ::
  "32 word list \<Rightarrow> VkMemoryRequirements \<Rightarrow> 32 word \<Rightarrow> error + nat" where
  "select_memory_type mem_props reqs props = select_memory_type_from mem_props 0 reqs props"

text \<open>\<open>context::allocate\<close> (lines 243 to 253).\<close>

definition allocate ::
  "device_results \<Rightarrow> 32 word list \<Rightarrow> VkMemoryRequirements \<Rightarrow> 32 word \<Rightarrow> error + unit" where
  "allocate dev mem_props reqs props =
     (case select_memory_type mem_props reqs props of
        Inl e \<Rightarrow> Inl e
      | Inr memoryTypeIndex \<Rightarrow> check (vkAllocateMemory dev))"

text \<open>\<open>context::begin_transient\<close> and \<open>context::end_transient\<close> (lines 277 to 304).\<close>

definition begin_transient :: "device_results \<Rightarrow> error + unit" where
  "begin_transient dev =
     (case check (vkAllocateCommandBuffers dev) of
        Inl e \<Rightarrow> Inl e
      | Inr _ \<Rightarrow> check (vkBeginCommandBuffer dev))"

definition end_transient :: "device_results \<Rightarrow> error + unit" where
  "end_transient dev =
     (case check (vkEndCommandBuffer dev) of
        Inl e \<Rightarrow> Inl e
      | Inr _ \<Rightarrow>
          (case check (vkQueueSubmit dev) of
             Inl e \<Rightarrow> Inl e
           | Inr _ \<Rightarrow> check (vkQueueWaitIdle dev)))"

text \<open>
  \<open>static_buffer::static_buffer\<close> (lines 545 to 564). The call
  \<open>vkBindBufferMemory(ctx->device, buffer, device_memory, 0)\<close> on line 558 returns a
  \<open>VkResult\<close> that the constructor does not look at.
\<close>

definition static_buffer_ctor ::
  "device_results \<Rightarrow> 32 word list \<Rightarrow> VkMemoryRequirements \<Rightarrow> 32 word \<Rightarrow> error + unit" where
  "static_buffer_ctor dev mem_props mem_reqs memory_properties =
     (case check (vkCreateBuffer dev) of
        Inl e \<Rightarrow> Inl e
      | Inr _ \<Rightarrow>
          (case allocate dev mem_props mem_reqs memory_properties of
             Inl e \<Rightarrow> Inl e
           | Inr _ \<Rightarrow>
               (case begin_transient dev of
                  Inl e \<Rightarrow> Inl e
                | Inr _ \<Rightarrow> end_transient dev)))"

text \<open>
  The staging set-up at the end of \<open>context::context\<close> (lines 198 to 216); the memory is
  asked for with the properties host-visible (2) and host-coherent (4). Line 208 is the
  same unchecked \<open>vkBindBufferMemory\<close>.
\<close>

definition context_staging ::
  "device_results \<Rightarrow> 32 word list \<Rightarrow> VkMemoryRequirements \<Rightarrow> error + unit" where
  "context_staging dev mem_props mem_reqs =
     (case check (vkCreateBuffer dev) of
        Inl e \<Rightarrow> Inl e
      | Inr _ \<Rightarrow>
          (case allocate dev mem_props mem_reqs (2 OR 4) of
             Inl e \<Rightarrow> Inl e
           | Inr _ \<Rightarrow>
               (case check (vkMapMemory dev) of
                  Inl e \<Rightarrow> Inl e
                | Inr _ \<Rightarrow> check (vkCreateCommandPool dev))))"

text \<open>A device on which every call succeeds, and one memory type that suits every request.\<close>

definition all_success :: device_results where
  "all_success =
     \<lparr>vkCreateBuffer = 0, vkAllocateMemory = 0, vkBindBufferMemory = 0, vkMapMemory = 0,
      vkCreateCommandPool = 0, vkAllocateCommandBuffers = 0, vkBeginCommandBuffer = 0,
      vkEndCommandBuffer = 0, vkQueueSubmit = 0, vkQueueWaitIdle = 0\<rparr>"

definition example_mem_props :: "32 word list" where
  "example_mem_props = [7]"

definition example_mem_reqs :: VkMemoryRequirements where
  "example_mem_reqs = \<lparr>mr_size = 4096, mr_alignment = 256, memoryTypeBits = 1\<rparr>"

section \<open>Example scene\<close>

text \<open>
  Two contracts at different addresses, a material of each, a mesh with three materials
  (the second spans the triangles \<open>[10, 40)\<close>), and an instance buffer of ten 64-byte
  instances. The theorems below are applied to them.
\<close>

definition example_contract :: scene_contract where
  "example_contract =
     \<lparr>contract_address = 100, render_passes = [500], shared_layouts = [11],
      example_layout = 12\<rparr>"

definition other_contract :: scene_contract where
  "other_contract =
     \<lparr>contract_address = 200, render_passes = [500], shared_layouts = [11],
      example_layout = 13\<rparr>"

definition example_material :: scene_material where
  "example_material =
     \<lparr>mat_contract = example_contract, per_object_layout = 21, pipeline_layout = 22,
      pipelines = [23]\<rparr>"

definition foreign_material :: scene_material where
  "foreign_material =
     \<lparr>mat_contract = other_contract, per_object_layout = 24, pipeline_layout = 25,
      pipelines = [26]\<rparr>"

definition example_set :: scene_descriptor_set where
  "example_set = \<lparr>sds_material = Some example_material, sds_layout = 21, sds_set = 31\<rparr>"

definition foreign_set :: scene_descriptor_set where
  "foreign_set = \<lparr>sds_material = Some foreign_material, sds_layout = 24, sds_set = 32\<rparr>"

definition shared_set :: scene_descriptor_set where
  "shared_set = \<lparr>sds_material = None, sds_layout = 11, sds_set = 33\<rparr>"

definition wrong_shared_set :: scene_descriptor_set where
  "wrong_shared_set = \<lparr>sds_material = None, sds_layout = 14, sds_set = 34\<rparr>"

definition example_list :: draw_list where
  "example_list = \<lparr>dl_contract = example_contract, items = []\<rparr>"

definition example_mesh :: gfx_mesh where
  "example_mesh =
     \<lparr>mesh_vertex_buffer = 41, mesh_index_buffer = 42,
      materials = [\<lparr>name = ''body'', first_triangle = 0, num_triangles = 10\<rparr>,
                   \<lparr>name = ''glass'', first_triangle = 10, num_triangles = 30\<rparr>,
                   \<lparr>name = ''trim'', first_triangle = 40, num_triangles = 5\<rparr>]\<rparr>"

definition example_instances :: VkDescriptorBufferInfo where
  "example_instances = \<lparr>bi_buffer = 43, bi_offset = 128, bi_range = 640\<rparr>"

definition vertex_binding :: "VkBuffer \<Rightarrow> VkDeviceSize \<Rightarrow> VkDescriptorBufferInfo" where
  "vertex_binding b off = \<lparr>bi_buffer = b, bi_offset = off, bi_range = 256\<rparr>"

section \<open>Properties of the mip chain\<close>

lemma ceil_log2_le1: "n \<le> 1 \<Longrightarrow> ceil_log2 n = 0"
  by (subst ceil_log2.simps) simp

lemma ceil_log2_gt1: "1 < n \<Longrightarrow> ceil_log2 n = Suc (ceil_log2 ((n + 1) div 2))"
  by (subst ceil_log2.simps) simp

lemma floor_log2_le1: "n \<le> 1 \<Longrightarrow> floor_log2 n = 0"
  by (subst floor_log2.simps) simp

lemma floor_log2_gt1: "1 < n \<Longrightarrow> floor_log2 n = Suc (floor_log2 (n div 2))"
  by (subst floor_log2.simps) simp

lemma ceil_log2_upper: "0 < n \<Longrightarrow> n \<le> 2 ^ ceil_log2 n"
proof (induction n rule: ceil_log2.induct)
  case (1 n)
  show ?case
  proof (cases "n \<le> 1")
    case True
    then show ?thesis by (simp add: ceil_log2_le1)
  next
    case False
    then have "(n + 1) div 2 \<le> 2 ^ ceil_log2 ((n + 1) div 2)"
      using "1.IH" by simp
    then have "n \<le> 2 * 2 ^ ceil_log2 ((n + 1) div 2)" by linarith
    moreover have "ceil_log2 n = Suc (ceil_log2 ((n + 1) div 2))"
      using False by (intro ceil_log2_gt1) simp
    ultimately show ?thesis by simp
  qed
qed

lemma ceil_log2_lower: "1 < n \<Longrightarrow> 2 ^ (ceil_log2 n - 1) < n"
proof (induction n rule: ceil_log2.induct)
  case (1 n)
  then have n: "\<not> n \<le> 1" by simp
  have unfold: "ceil_log2 n = Suc (ceil_log2 ((n + 1) div 2))"
    using n by (intro ceil_log2_gt1) simp
  show ?case
  proof (cases "(n + 1) div 2 \<le> 1")
    case True
    then have "ceil_log2 ((n + 1) div 2) = 0" by (rule ceil_log2_le1)
    with n unfold show ?thesis by simp
  next
    case False
    then have "2 ^ (ceil_log2 ((n + 1) div 2) - 1) < (n + 1) div 2"
      using "1.IH" n by simp
    moreover obtain k where k: "ceil_log2 ((n + 1) div 2) = Suc k"
      using False ceil_log2_gt1 [of "(n + 1) div 2"] by auto
    ultimately have "2 ^ k < (n + 1) div 2" by simp
    then have "2 * 2 ^ k < n" by linarith
    with unfold k show ?thesis by simp
  qed
qed

text \<open>\<open>ceil_log2\<close> is the logarithm to base 2 rounded up, as \<open>std::ceil(std::log2(n))\<close>.\<close>

lemma ceil_log2_is_ceiling_log: "0 < n \<Longrightarrow> \<lceil>log 2 (real n)\<rceil> = int (ceil_log2 n)"
proof (cases "n = 1")
  case True
  then show ?thesis by (simp add: ceil_log2_le1)
next
  case False
  assume "0 < n"
  with False have n: "1 < n" by simp
  then have pos: "0 < ceil_log2 n" by (simp add: ceil_log2_gt1)
  have lo: "2 ^ (ceil_log2 n - 1) < n" using n by (rule ceil_log2_lower)
  have hi: "n \<le> 2 ^ ceil_log2 n" using \<open>0 < n\<close> by (rule ceil_log2_upper)
  have "real (ceil_log2 n - 1) < log 2 (real n)"
  proof -
    have "real (2 ^ (ceil_log2 n - 1) :: nat) < real n" using lo by (simp only: of_nat_less_iff)
    then have "2 powr real (ceil_log2 n - 1) < real n" by (simp add: powr_realpow)
    then show ?thesis using n by (simp add: less_log_iff)
  qed
  moreover have "log 2 (real n) \<le> real (ceil_log2 n)"
  proof -
    have "real n \<le> real (2 ^ ceil_log2 n :: nat)" using hi by (simp only: of_nat_le_iff)
    then have "real n \<le> 2 powr real (ceil_log2 n)" by (simp add: powr_realpow)
    then show ?thesis using n by (simp add: log_le_iff)
  qed
  ultimately show ?thesis using pos by (intro ceiling_unique) (auto simp: of_nat_diff)
qed

lemma floor_log2_bounds: "0 < n \<Longrightarrow> 2 ^ floor_log2 n \<le> n \<and> n < 2 * 2 ^ floor_log2 n"
proof (induction n rule: floor_log2.induct)
  case (1 n)
  show ?case
  proof (cases "n \<le> 1")
    case True
    with "1.prems" show ?thesis by (simp add: floor_log2_le1)
  next
    case False
    then have "2 ^ floor_log2 (n div 2) \<le> n div 2 \<and> n div 2 < 2 * 2 ^ floor_log2 (n div 2)"
      using "1.IH" by simp
    then have "2 * 2 ^ floor_log2 (n div 2) \<le> n \<and> n < 2 * (2 * 2 ^ floor_log2 (n div 2))"
      by linarith
    moreover have "floor_log2 n = Suc (floor_log2 (n div 2))"
      using False by (intro floor_log2_gt1) simp
    ultimately show ?thesis by simp
  qed
qed

text \<open>
  Rounding up and rounding down give the same number of levels exactly when the largest
  dimension is a power of two; otherwise the code asks for one level more.
\<close>

lemma ceil_log2_floor_log2:
  assumes "0 < n"
  shows "ceil_log2 n = (if n = 2 ^ floor_log2 n then floor_log2 n else Suc (floor_log2 n))"
proof (cases "n = 1")
  case True
  then show ?thesis by (simp add: ceil_log2_le1 floor_log2_le1)
next
  case False
  with assms have n: "1 < n" by simp
  let ?f = "floor_log2 n" and ?c = "ceil_log2 n"
  have fl: "2 ^ ?f \<le> n" "n < 2 ^ Suc ?f" using floor_log2_bounds [OF assms] by simp_all
  have up: "n \<le> 2 ^ ?c" using assms by (rule ceil_log2_upper)
  have lo: "2 ^ (?c - 1) < n" using n by (rule ceil_log2_lower)
  have p: "(2::nat) ^ (?c - 1) < 2 ^ Suc ?f" using lo fl(2) by linarith
  from power_less_imp_less_exp [OF _ p] have c_le: "?c \<le> Suc ?f" by simp
  show ?thesis
  proof (cases "n = 2 ^ ?f")
    case True
    have q: "(2::nat) ^ (?c - 1) < 2 ^ ?f" using lo True by simp
    from power_less_imp_less_exp [OF _ q] have "?c - 1 < ?f" by simp
    moreover have r: "(2::nat) ^ ?f \<le> 2 ^ ?c" using up True by simp
    from power_le_imp_le_exp [OF _ r] have "?f \<le> ?c" by simp
    ultimately have "?c = ?f" by linarith
    with True show ?thesis by simp
  next
    case False
    with fl(1) have t: "(2::nat) ^ ?f < 2 ^ ?c" using up by linarith
    from power_less_imp_less_exp [OF _ t] have "?f < ?c" by simp
    with c_le have "?c = Suc ?f" by linarith
    with False show ?thesis by simp
  qed
qed

lemma create_texture_2d_mipLevels_vs_spec:
  assumes "max w h \<noteq> 0"
  shows "create_texture_2d_mipLevels w h
     = Inr (if unat (max w h) = 2 ^ floor_log2 (unat (max w h))
            then spec_mip_chain_length (unat w) (unat h)
            else Suc (spec_mip_chain_length (unat w) (unat h)))"
proof -
  have h1: "max h 1 = h" if "h \<noteq> 0"
  proof -
    have "0 < unat h" using that by (simp add: unat_gt_0)
    then show ?thesis by (auto simp: max_def word_le_nat_alt word_unat_eq_iff)
  qed
  have m: "max w (max h 1) = max w h"
  proof (cases "h = 0")
    case True
    with assms have "w \<noteq> 0" by (simp add: max_def split: if_splits)
    then have "1 \<le> w" by (simp add: word_le_nat_alt unat_gt_0 Suc_leI)
    with True show ?thesis by (simp add: max_def)
  next
    case False
    then show ?thesis by (simp add: h1)
  qed
  have u: "max (unat w) (unat h) = unat (max w h)"
    by (simp add: max_def word_le_nat_alt)
  have "0 < unat (max w h)" using assms by (simp add: unat_gt_0)
  from ceil_log2_floor_log2 [OF this] m u assms show ?thesis
    by (simp add: create_texture_2d_mipLevels_def texture_mipLevels_def spec_mip_chain_length_def)
qed

lemma ceil_log2_300: "ceil_log2 300 = 9"
  by code_simp

lemma ceil_log2_256: "ceil_log2 256 = 8"
  by code_simp

lemma floor_log2_300: "floor_log2 300 = 8"
  by code_simp

lemma floor_log2_256: "floor_log2 256 = 8"
  by code_simp

lemma mip_dim_300_8: "mip_dim 300 8 = 1"
  by code_simp

lemma mip_dim_200_8: "mip_dim 200 8 = 1"
  by code_simp

text \<open>
  C4, as the specification states it, fails on the code: for a 300\<times>200 texture (depth 1)
  \<open>texture::texture\<close> asks for 10 mip levels, where \<open>1 + floor(log2(max(W,H)))\<close> is 9.
  The code rounds the logarithm up, not down. The two agree on the 256\<times>256 texture
  (9 levels). The tenth level has no size of its own: the blit loop's halving gives
  level 8 the size 1\<times>1 already.
\<close>

theorem mip_levels_300x200_is_10:
  "create_texture_2d_mipLevels 300 200 = Inr 10
   \<and> spec_mip_chain_length 300 200 = 9
   \<and> create_texture_2d_mipLevels 256 256 = Inr 9
   \<and> spec_mip_chain_length 256 256 = 9
   \<and> mip_dim 300 8 = 1 \<and> mip_dim 200 8 = 1"
  by (simp add: create_texture_2d_mipLevels_def texture_mipLevels_def
      spec_mip_chain_length_def ceil_log2_300 ceil_log2_256 floor_log2_300 floor_log2_256
      mip_dim_300_8 mip_dim_200_8)

section \<open>Properties of the linear allocator\<close>

lemma round_up_ge: "0 < a \<Longrightarrow> n \<le> round_up a n"
proof -
  assume a: "0 < a"
  have "n + a - 1 < ((n + a - 1) div a + 1) * a"
    using a by (metis Suc_eq_plus1 dividend_less_div_times mult.commute add.commute mult_Suc)
  then show ?thesis using a by (simp add: round_up_def)
qed

lemma round_up_no_wrap:
  assumes a: "0 < a" and d: "a dvd 2 ^ 64" and R: "round_up a n < (2::nat) ^ 64"
  shows "n + a - 1 < 2 ^ 64"
proof -
  define q where "q = (n + a - 1) div a"
  obtain m where m: "(2::nat) ^ 64 = a * m" using d by (auto simp: dvd_def)
  have "q * a < a * m" using R m by (simp add: round_up_def q_def)
  then have "q < m" using a by (simp add: mult.commute)
  then have "q + 1 \<le> m" by simp
  then have "a * (q + 1) \<le> a * m" by (rule mult_le_mono2)
  then have "(q + 1) * a \<le> a * m" by (simp add: mult.commute)
  moreover have "n + a - 1 < (q + 1) * a"
    unfolding q_def using a
    by (metis Suc_eq_plus1 dividend_less_div_times mult.commute add.commute mult_Suc)
  ultimately show ?thesis using m by simp
qed

lemma begin_no_wrap:
  assumes va: "valid_alignment (db_alignment b)"
    and fit: "unat (db_offset b) + round_up (unat (db_alignment b)) (unat (db_range b)) \<le> cap"
    and cap: "cap < 2 ^ 64"
  shows "\<exists>b'. dynamic_buffer_begin b = Inr b'
           \<and> unat (db_offset b') = unat (db_offset b) + round_up (unat (db_alignment b)) (unat (db_range b))
           \<and> db_range b' = 0 \<and> db_alignment b' = db_alignment b \<and> db_buffer b' = db_buffer b"
proof -
  let ?a = "db_alignment b" and ?r = "db_range b" and ?o = "db_offset b"
  have a0: "?a \<noteq> 0" and dv: "unat ?a dvd 2 ^ 64"
    using va by (simp_all add: valid_alignment_def)
  have apos: "0 < unat ?a" using a0 by (simp add: unat_gt_0)
  have R: "round_up (unat ?a) (unat ?r) < 2 ^ 64" using fit cap by linarith
  have nw: "unat ?r + unat ?a - 1 < 2 ^ 64" using apos dv R by (rule round_up_no_wrap)
  have am1: "unat (?a - 1) = unat ?a - 1" using a0 by (rule unat_minus_one)
  have s1: "unat (?r + ?a - 1) = unat ?r + unat ?a - 1"
  proof -
    have "unat (?r + ?a - 1) = unat (?r + (?a - 1))" by (simp add: add_diff_eq)
    also have "\<dots> = unat ?r + unat (?a - 1)"
      using nw apos am1 by (intro unat_add_lem [THEN iffD1]) simp
    also have "\<dots> = unat ?r + unat ?a - 1" using am1 apos by simp
    finally show ?thesis .
  qed
  have s2: "unat ((?r + ?a - 1) div ?a) = (unat ?r + unat ?a - 1) div unat ?a"
    by (simp add: unat_div s1)
  have s3: "unat ((?r + ?a - 1) div ?a * ?a) = round_up (unat ?a) (unat ?r)"
  proof -
    have "unat ((?r + ?a - 1) div ?a) * unat ?a < 2 ^ LENGTH(64)"
      using R by (simp add: s2 round_up_def)
    then have "unat ((?r + ?a - 1) div ?a * ?a) = unat ((?r + ?a - 1) div ?a) * unat ?a"
      by (rule unat_mult_lem [THEN iffD1])
    then show ?thesis by (simp add: s2 round_up_def)
  qed
  have s4: "unat (?o + (?r + ?a - 1) div ?a * ?a) = unat ?o + round_up (unat ?a) (unat ?r)"
  proof -
    have "unat ?o + unat ((?r + ?a - 1) div ?a * ?a) < 2 ^ LENGTH(64)"
      using fit cap by (simp add: s3)
    then have "unat (?o + (?r + ?a - 1) div ?a * ?a) = unat ?o + unat ((?r + ?a - 1) div ?a * ?a)"
      by (rule unat_add_lem [THEN iffD1])
    then show ?thesis by (simp add: s3)
  qed
  show ?thesis using a0 s4 by (simp add: dynamic_buffer_begin_def)
qed

lemma write_no_wrap:
  assumes "unat (db_range b) + unat sz < 2 ^ 64"
  shows "unat (db_range (dynamic_buffer_write sz b)) = unat (db_range b) + unat sz"
proof -
  have "unat (db_range b) + unat sz < 2 ^ LENGTH(64)" using assms by simp
  then have "unat (db_range b + sz) = unat (db_range b) + unat sz"
    by (rule unat_add_lem [THEN iffD1])
  then show ?thesis by (simp add: dynamic_buffer_write_def)
qed

lemma disjoint_regions_snoc:
  "disjoint_regions (xs @ [y]) \<longleftrightarrow>
     disjoint_regions xs \<and> (\<forall>x \<in> set xs. epoch x = epoch y \<longrightarrow> \<not> regions_overlap x y)"
  by (induction xs) auto

lemma disjoint_regions_nth:
  "disjoint_regions xs \<Longrightarrow> i < j \<Longrightarrow> j < length xs \<Longrightarrow> epoch (xs ! i) = epoch (xs ! j)
     \<Longrightarrow> \<not> regions_overlap (xs ! i) (xs ! j)"
proof (induction xs arbitrary: i j)
  case Nil
  then show ?case by simp
next
  case (Cons x xs)
  show ?case
  proof (cases i)
    case 0
    with Cons.prems obtain j' where j': "j = Suc j'" "j' < length xs" by (cases j) auto
    then have "xs ! j' \<in> set xs" by simp
    with Cons.prems 0 j' show ?thesis by auto
  next
    case (Suc i')
    with Cons.prems obtain j' where j': "j = Suc j'" "j' < length xs" "i' < j'" by (cases j) auto
    with Cons.prems Suc Cons.IH [of i' j'] show ?thesis by auto
  qed
qed

lemma regions_end_before_no_overlap:
  "unat (r_offset x) + unat (r_range x) \<le> unat (r_offset y) \<Longrightarrow> \<not> regions_overlap x y"
  by (simp add: regions_overlap_def)

lemma step_preserves:
  assumes inv: "run_inv cap r"
    and va: "valid_alignment (db_alignment (cur r))"
    and cap: "cap < 2 ^ 64"
    and nxt: "fst (demand_step (unat (db_alignment (cur r))) (demand_of (cur r)) x)
              + snd (demand_step (unat (db_alignment (cur r))) (demand_of (cur r)) x) \<le> cap"
  shows "\<exists>r'. step r x = Inr r' \<and> run_inv cap r'
           \<and> db_alignment (cur r') = db_alignment (cur r)
           \<and> demand_of (cur r') = demand_step (unat (db_alignment (cur r))) (demand_of (cur r)) x
           \<and> (x \<noteq> Reset \<longrightarrow> db_offset (cur r) \<le> db_offset (cur r'))"
proof -
  have here: "unat (db_offset (cur r)) + unat (db_range (cur r)) \<le> cap"
    and ret: "\<forall>d \<in> set (returned r). unat (bi_offset d) + unat (bi_range d) \<le> cap"
    and old: "\<forall>x \<in> set (closed r). epoch x \<le> resets r
           \<and> (epoch x = resets r \<longrightarrow>
                unat (r_offset x) + unat (r_range x) \<le> unat (db_offset (cur r)))"
    and dis: "disjoint_regions (closed r)"
    using inv by (simp_all add: run_inv_def)
  have dis': "disjoint_regions (closed r @ [current_region r])"
    unfolding disjoint_regions_snoc
    using dis old by (auto intro!: regions_end_before_no_overlap simp: current_region_def)
  show ?thesis
  proof (cases x)
    case Reset
    then show ?thesis
      using ret old dis'
      by (auto simp: run_inv_def dynamic_buffer_reset_def demand_of_def current_region_def)
  next
    case Begin
    from nxt Begin
    have fit: "unat (db_offset (cur r))
                 + round_up (unat (db_alignment (cur r))) (unat (db_range (cur r))) \<le> cap"
      by (simp add: demand_of_def)
    from begin_no_wrap [OF va fit cap] obtain b' where
      b': "dynamic_buffer_begin (cur r) = Inr b'"
        "unat (db_offset b') = unat (db_offset (cur r))
           + round_up (unat (db_alignment (cur r))) (unat (db_range (cur r)))"
        "db_range b' = 0" "db_alignment b' = db_alignment (cur r)"
      by blast
    have "0 < unat (db_alignment (cur r))"
      using va by (simp add: valid_alignment_def unat_gt_0)
    then have ge: "unat (db_range (cur r))
        \<le> round_up (unat (db_alignment (cur r))) (unat (db_range (cur r)))"
      by (rule round_up_ge)
    have mono: "db_offset (cur r) \<le> db_offset b'"
      using b'(2) by (simp add: word_le_nat_alt)
    have inv': "run_inv cap (r\<lparr>cur := b', closed := closed r @ [current_region r]\<rparr>)"
      unfolding run_inv_def
      using fit ret old dis' b'(2,3) ge
      by (auto simp: current_region_def)
    show ?thesis
      using Begin b' inv' mono by (simp add: demand_of_def)
  next
    case (Write sz)
    from nxt Write have fit: "unat (db_offset (cur r)) + (unat (db_range (cur r)) + unat sz) \<le> cap"
      by (simp add: demand_of_def)
    then have "unat (db_range (cur r)) + unat sz < 2 ^ 64" using cap by linarith
    then have w: "unat (db_range (dynamic_buffer_write sz (cur r))) = unat (db_range (cur r)) + unat sz"
      by (rule write_no_wrap)
    have same: "db_offset (dynamic_buffer_write sz (cur r)) = db_offset (cur r)"
      "db_alignment (dynamic_buffer_write sz (cur r)) = db_alignment (cur r)"
      by (simp_all add: dynamic_buffer_write_def)
    show ?thesis
      using Write w same fit ret old dis
      by (auto simp: run_inv_def demand_of_def)
  next
    case End
    then show ?thesis
      using here ret old dis
      by (auto simp: run_inv_def demand_of_def dynamic_buffer_end_def)
  qed
qed

lemma within_capacity_here: "within_capacity cap a s xs \<Longrightarrow> fst s + snd s \<le> cap"
  by (cases xs) auto

lemma within_capacity_take:
  "within_capacity cap a s xs \<Longrightarrow> within_capacity cap a s (take n xs)"
proof (induction xs arbitrary: s n)
  case Nil
  then show ?case by simp
next
  case (Cons x xs)
  then show ?case by (cases n) auto
qed

lemma within_capacity_append:
  "within_capacity cap a s (xs @ ys) \<longleftrightarrow>
     within_capacity cap a s xs \<and> within_capacity cap a (foldl (demand_step a) s xs) ys"
proof (induction xs arbitrary: s)
  case Nil
  then show ?case by (auto dest: within_capacity_here)
next
  case (Cons x xs)
  then show ?case by auto
qed

lemma run_append:
  "run r (xs @ ys) = (case run r xs of Inl e \<Rightarrow> Inl e | Inr r' \<Rightarrow> run r' ys)"
  by (induction xs arbitrary: r) (auto split: sum.splits)

lemma run_preserves:
  assumes "run_inv cap r" and "valid_alignment (db_alignment (cur r))" and "cap < 2 ^ 64"
    and "within_capacity cap (unat (db_alignment (cur r))) (demand_of (cur r)) xs"
  shows "\<exists>r'. run r xs = Inr r' \<and> run_inv cap r'
           \<and> db_alignment (cur r') = db_alignment (cur r)
           \<and> demand_of (cur r') = foldl (demand_step (unat (db_alignment (cur r)))) (demand_of (cur r)) xs"
  using assms
proof (induction xs arbitrary: r)
  case Nil
  then show ?case by simp
next
  case (Cons x xs)
  let ?a = "unat (db_alignment (cur r))"
  from Cons.prems(4) have tl: "within_capacity cap ?a (demand_step ?a (demand_of (cur r)) x) xs"
    by simp
  then have "fst (demand_step ?a (demand_of (cur r)) x) + snd (demand_step ?a (demand_of (cur r)) x) \<le> cap"
    by (rule within_capacity_here)
  from step_preserves [OF Cons.prems(1,2,3) this] obtain r1 where
    r1: "step r x = Inr r1" "run_inv cap r1" "db_alignment (cur r1) = db_alignment (cur r)"
      "demand_of (cur r1) = demand_step ?a (demand_of (cur r)) x"
    by blast
  from Cons.IH [of r1] r1 tl Cons.prems(2,3)
  obtain r' where "run r1 xs = Inr r'" "run_inv cap r'"
      "db_alignment (cur r') = db_alignment (cur r1)"
      "demand_of (cur r') = foldl (demand_step (unat (db_alignment (cur r1)))) (demand_of (cur r1)) xs"
    by auto
  with r1 show ?case by simp
qed

lemma run_inv_start:
  "unat (db_offset b) + unat (db_range b) \<le> cap \<Longrightarrow> run_inv cap (start b)"
  by (simp add: run_inv_def start_def)

lemma run_inv_regions:
  assumes "run_inv cap r"
  shows "disjoint_regions (regions r)"
  unfolding regions_def disjoint_regions_snoc
  using assms
  by (auto simp: run_inv_def current_region_def intro!: regions_end_before_no_overlap)

lemma regions_overlap_iff_common_byte:
  "regions_overlap x y \<longleftrightarrow>
     {unat (r_offset x) ..< unat (r_offset x) + unat (r_range x)}
       \<inter> {unat (r_offset y) ..< unat (r_offset y) + unat (r_range y)} \<noteq> {}"
proof
  assume "regions_overlap x y"
  then have "max (unat (r_offset x)) (unat (r_offset y))
      \<in> {unat (r_offset x) ..< unat (r_offset x) + unat (r_range x)}
       \<inter> {unat (r_offset y) ..< unat (r_offset y) + unat (r_range y)}"
    by (simp add: regions_overlap_def)
  then show "{unat (r_offset x) ..< unat (r_offset x) + unat (r_range x)}
       \<inter> {unat (r_offset y) ..< unat (r_offset y) + unat (r_range y)} \<noteq> {}"
    by blast
next
  assume "{unat (r_offset x) ..< unat (r_offset x) + unat (r_range x)}
       \<inter> {unat (r_offset y) ..< unat (r_offset y) + unat (r_range y)} \<noteq> {}"
  then obtain k where "k \<in> {unat (r_offset x) ..< unat (r_offset x) + unat (r_range x)}"
    "k \<in> {unat (r_offset y) ..< unat (r_offset y) + unat (r_range y)}" by blast
  then show "regions_overlap x y" by (simp add: regions_overlap_def)
qed

text \<open>
  C1 (amended): take a buffer whose alignment is a power of two, as the device reports it,
  and a sequence of \<open>reset\<close>/\<open>begin\<close>/\<open>write\<close>/\<open>end\<close> calls whose written
  sizes plus alignment padding, counted from the last reset, stay within the capacity.
  Then after every prefix of the sequence: no call has failed; \<open>offset + range\<close> does
  not exceed the capacity (and has not wrapped around); every descriptor returned by
  \<open>end()\<close> lies within \<open>[0, capacity)\<close>; the regions of distinct \<open>begin()\<close> calls
  with no \<open>reset()\<close> between them do not overlap; and the next call, unless it is
  \<open>reset()\<close>, does not decrease \<open>offset\<close>.
\<close>

theorem dynamic_buffer_regions_within_capacity:
  fixes capacity :: VkDeviceSize
  assumes va: "valid_alignment (db_alignment b)"
    and fits: "within_capacity (unat capacity) (unat (db_alignment b)) (demand_of b) ops"
    and n: "n \<le> length ops"
  shows "\<exists>r. run (start b) (take n ops) = Inr r
      \<and> unat (db_offset (cur r)) + unat (db_range (cur r)) \<le> unat capacity
      \<and> (\<forall>d \<in> set (returned r). unat (bi_offset d) + unat (bi_range d) \<le> unat capacity)
      \<and> (\<forall>i j. i < j \<and> j < length (regions r) \<and> epoch (regions r ! i) = epoch (regions r ! j)
            \<longrightarrow> \<not> regions_overlap (regions r ! i) (regions r ! j))
      \<and> (n < length ops \<and> ops ! n \<noteq> Reset \<longrightarrow>
            (\<exists>r'. run (start b) (take (Suc n) ops) = Inr r' \<and> db_offset (cur r) \<le> db_offset (cur r')))"
proof -
  let ?cap = "unat capacity" and ?a = "unat (db_alignment b)"
  have cap: "?cap < 2 ^ 64" using unsigned_less [of capacity, where ?'a = nat] by simp
  have s0: "run_inv ?cap (start b)"
    using fits by (intro run_inv_start) (auto dest: within_capacity_here simp: demand_of_def)
  have al: "db_alignment (cur (start b)) = db_alignment b" and c0: "cur (start b) = b"
    by (simp_all add: start_def)
  have fn: "within_capacity ?cap ?a (demand_of b) (take n ops)"
    using fits by (rule within_capacity_take)
  from run_preserves [of ?cap "start b" "take n ops"] s0 va cap fn al c0
  obtain r where r: "run (start b) (take n ops) = Inr r" "run_inv ?cap r"
      "db_alignment (cur r) = db_alignment b"
      "demand_of (cur r) = foldl (demand_step ?a) (demand_of b) (take n ops)"
    by auto
  have d: "disjoint_regions (regions r)" using r(2) by (rule run_inv_regions)
  have mono: "\<exists>r'. run (start b) (take (Suc n) ops) = Inr r' \<and> db_offset (cur r) \<le> db_offset (cur r')"
    if "n < length ops" "ops ! n \<noteq> Reset"
  proof -
    have tk: "take (Suc n) ops = take n ops @ [ops ! n]"
      using that(1) by (rule take_Suc_conv_app_nth)
    have "within_capacity ?cap ?a (demand_of b) (take (Suc n) ops)"
      using fits by (rule within_capacity_take)
    then have "within_capacity ?cap ?a (foldl (demand_step ?a) (demand_of b) (take n ops)) [ops ! n]"
      unfolding tk within_capacity_append by simp
    then have "fst (demand_step ?a (demand_of (cur r)) (ops ! n))
        + snd (demand_step ?a (demand_of (cur r)) (ops ! n)) \<le> ?cap"
      using r(4) by simp
    with step_preserves [of ?cap r "ops ! n"] r(2,3) va cap that(2)
    obtain r' where "step r (ops ! n) = Inr r'" "db_offset (cur r) \<le> db_offset (cur r')"
      by auto
    then show ?thesis using r(1) by (simp add: tk run_append)
  qed
  show ?thesis
    using r(1,2) d mono by (auto simp: run_inv_def dest: disjoint_regions_nth)
qed

theorem dynamic_buffer_regions_within_capacity_witness:
  "valid_alignment (db_alignment example_buffer)
   \<and> within_capacity (unat (1024 :: 64 word)) (unat (db_alignment example_buffer))
        (demand_of example_buffer) [Reset, Begin, Write 4, End, Begin, Write 20, End]
   \<and> regions_after example_buffer (take 6 [Reset, Begin, Write 4, End, Begin, Write 20, End])
       = [\<lparr>epoch = 0, r_offset = 0, r_range = 0\<rparr>, \<lparr>epoch = 1, r_offset = 0, r_range = 0\<rparr>,
          \<lparr>epoch = 1, r_offset = 0, r_range = 4\<rparr>, \<lparr>epoch = 1, r_offset = 16, r_range = 20\<rparr>]
   \<and> \<not> regions_overlap \<lparr>epoch = 1, r_offset = 0, r_range = 4\<rparr>
         \<lparr>epoch = 1, r_offset = 16, r_range = 20\<rparr>"
proof -
  let ?ops = "[Reset, Begin, Write 4, End, Begin, Write 20, End]"
  have va: "valid_alignment (db_alignment example_buffer)"
    by (simp add: example_buffer_def valid_alignment_def)
  have fits: "within_capacity (unat (1024 :: 64 word)) (unat (db_alignment example_buffer))
      (demand_of example_buffer) ?ops"
    by (simp add: example_buffer_def demand_of_def round_up_def)
  have n: "(6::nat) \<le> length ?ops" by simp
  have conc: "regions_after example_buffer (take 6 ?ops)
       = [\<lparr>epoch = 0, r_offset = 0, r_range = 0\<rparr>, \<lparr>epoch = 1, r_offset = 0, r_range = 0\<rparr>,
          \<lparr>epoch = 1, r_offset = 0, r_range = 4\<rparr>, \<lparr>epoch = 1, r_offset = 16, r_range = 20\<rparr>]"
    by (simp add: regions_after_def start_def example_buffer_def dynamic_buffer_begin_def
        dynamic_buffer_reset_def dynamic_buffer_write_def dynamic_buffer_end_def regions_def
        current_region_def)
  from dynamic_buffer_regions_within_capacity [OF va fits n]
  obtain r where r: "run (start example_buffer) (take 6 ?ops) = Inr r"
    and d: "\<forall>i j. i < j \<and> j < length (regions r) \<and> epoch (regions r ! i) = epoch (regions r ! j)
            \<longrightarrow> \<not> regions_overlap (regions r ! i) (regions r ! j)"
    by blast
  have reg: "regions r = [\<lparr>epoch = 0, r_offset = 0, r_range = 0\<rparr>,
          \<lparr>epoch = 1, r_offset = 0, r_range = 0\<rparr>,
          \<lparr>epoch = 1, r_offset = 0, r_range = 4\<rparr>, \<lparr>epoch = 1, r_offset = 16, r_range = 20\<rparr>]"
    using conc r by (simp add: regions_after_def)
  have "\<not> regions_overlap (regions r ! 2) (regions r ! 3)"
    using d [rule_format, of 2 3] by (simp add: reg)
  then have "\<not> regions_overlap \<lparr>epoch = 1, r_offset = 0, r_range = 4\<rparr>
         \<lparr>epoch = 1, r_offset = 16, r_range = 20\<rparr>"
    by (simp add: reg)
  with va fits conc show ?thesis by blast
qed

text \<open>
  C1 as it is written covers sequences that contain \<open>reset()\<close>, and there it fails:
  after \<open>reset(); begin(); write(4); end(); reset(); begin(); write(4); end()\<close> on a
  buffer of capacity 1024 with alignment 16, the regions of the two \<open>begin()\<close> calls
  are both \<open>[0, 4)\<close>. \<open>reset()\<close> rewinds the allocator on purpose.
\<close>

theorem regions_across_reset_overlap:
  "valid_alignment (db_alignment example_buffer)
   \<and> within_capacity 1024 16 (0, 0) [Reset, Begin, Write 4, End, Reset, Begin, Write 4, End]
   \<and> regions_after example_buffer [Reset, Begin, Write 4, End, Reset, Begin, Write 4, End] ! 2
       = \<lparr>epoch = 1, r_offset = 0, r_range = 4\<rparr>
   \<and> regions_after example_buffer [Reset, Begin, Write 4, End, Reset, Begin, Write 4, End] ! 4
       = \<lparr>epoch = 2, r_offset = 0, r_range = 4\<rparr>
   \<and> regions_overlap (regions_after example_buffer [Reset, Begin, Write 4, End, Reset, Begin, Write 4, End] ! 2)
        (regions_after example_buffer [Reset, Begin, Write 4, End, Reset, Begin, Write 4, End] ! 4)"
  by (simp add: valid_alignment_def round_up_def regions_after_def start_def example_buffer_def
      dynamic_buffer_begin_def
      dynamic_buffer_reset_def dynamic_buffer_write_def dynamic_buffer_end_def regions_def
      current_region_def regions_overlap_def)

section \<open>Properties of the transient resource pool\<close>

lemma check_Inr_iff: "check r = Inr u \<longleftrightarrow> r = VK_SUCCESS"
  by (simp add: check_def split: sum.splits)

lemma check_success: "check VK_SUCCESS = Inr ()"
  by (simp add: check_def)

lemma begin_after_reset:
  assumes "db_alignment b \<noteq> 0"
  shows "dynamic_buffer_begin (b\<lparr>db_offset := 0, db_range := 0\<rparr>)
         = Inr (b\<lparr>db_offset := 0, db_range := 0\<rparr>)"
proof -
  let ?a = "db_alignment b"
  have "unat ((?a - 1) div ?a) = (unat ?a - 1) div unat ?a"
    using assms by (simp add: unat_div unat_minus_one)
  also have "\<dots> = 0" using assms by (simp add: unat_gt_0)
  finally have "(?a - 1) div ?a = 0" by (simp add: unat_eq_zero)
  then show ?thesis using assms
    by (simp add: dynamic_buffer_begin_def)
qed

text \<open>
  A reset that fails part of the way leaves what it had done: when \<open>vkResetCommandPool\<close>
  fails, the recorded command buffers are gone already and the allocators are untouched.
\<close>

lemma reset_failure_keeps_partial_state:
  assumes "vkWaitForFences dev = VK_SUCCESS" and "vkResetFences dev = VK_SUCCESS"
    and "narrow (of_nat (length (pool_command_buffers p))) = Inr n"
    and "check (vkResetCommandPool dev) = Inl e"
  shows "transient_resource_pool_reset narrow dev p = (Some e, p\<lparr>pool_command_buffers := []\<rparr>)"
  using assms
  by (simp add: transient_resource_pool_reset_def free_command_buffers_def check_success)

text \<open>
  C8: take a pool whose three allocators have a nonzero alignment, and let the four
  device calls of \<open>transient_resource_pool::reset\<close> succeed and the sizes of the two
  handle vectors, where they are not empty, convert. Then \<open>reset()\<close> returns with the
  pool changed in this way only: the two handle vectors are empty and each of the three
  allocators has \<open>offset = range = 0\<close>, its buffer and alignment as before. A second
  reset returns that same pool. On each allocator of the reset pool the first \<open>begin()\<close>
  succeeds and leaves it as it is, \<open>offset\<close> at 0: the zero range rounds up to zero.
\<close>

theorem transient_resource_pool_reset_idempotent:
  assumes "all_succeed dev" and "all_succeed dev'"
    and "pool_command_buffers p \<noteq> []
           \<longrightarrow> narrow (of_nat (length (pool_command_buffers p))) = Inr nc"
    and "pool_descriptor_sets p \<noteq> []
           \<longrightarrow> narrow (of_nat (length (pool_descriptor_sets p))) = Inr nd"
    and "\<forall>b \<in> set (allocators p). db_alignment b \<noteq> 0"
    and "p' = p\<lparr>pool_command_buffers := [], pool_descriptor_sets := [],
                 pool_uniform_buffer := (pool_uniform_buffer p)\<lparr>db_offset := 0, db_range := 0\<rparr>,
                 pool_vertex_buffer := (pool_vertex_buffer p)\<lparr>db_offset := 0, db_range := 0\<rparr>,
                 pool_index_buffer := (pool_index_buffer p)\<lparr>db_offset := 0, db_range := 0\<rparr>\<rparr>"
  shows "transient_resource_pool_reset narrow dev p = (None, p')
     \<and> transient_resource_pool_reset narrow dev' p' = (None, p')
     \<and> dynamic_buffer_begin (pool_uniform_buffer p') = Inr (pool_uniform_buffer p')
     \<and> dynamic_buffer_begin (pool_vertex_buffer p') = Inr (pool_vertex_buffer p')
     \<and> dynamic_buffer_begin (pool_index_buffer p') = Inr (pool_index_buffer p')
     \<and> (\<forall>b \<in> set (allocators p'). db_offset b = 0 \<and> db_range b = 0)"
proof -
  have ok: "check (vkWaitForFences dev) = Inr ()" "check (vkResetFences dev) = Inr ()"
    "check (vkResetCommandPool dev) = Inr ()" "check (vkResetDescriptorPool dev) = Inr ()"
    using assms(1) by (simp_all add: all_succeed_def check_success)
  have ok': "check (vkWaitForFences dev') = Inr ()" "check (vkResetFences dev') = Inr ()"
    "check (vkResetCommandPool dev') = Inr ()" "check (vkResetDescriptorPool dev') = Inr ()"
    using assms(2) by (simp_all add: all_succeed_def check_success)
  have c: "free_command_buffers narrow p = (None, p\<lparr>pool_command_buffers := []\<rparr>)"
    using assms(3) by (cases "pool_command_buffers p = []") (simp_all add: free_command_buffers_def)
  have d: "free_descriptor_sets narrow (p\<lparr>pool_command_buffers := []\<rparr>)
      = (None, p\<lparr>pool_command_buffers := [], pool_descriptor_sets := []\<rparr>)"
    using assms(4) by (cases "pool_descriptor_sets p = []") (simp_all add: free_descriptor_sets_def)
  have 1: "transient_resource_pool_reset narrow dev p = (None, p')"
    by (simp add: transient_resource_pool_reset_def ok c d assms(6) dynamic_buffer_reset_def)
  have c': "free_command_buffers narrow p' = (None, p')"
    by (simp add: free_command_buffers_def assms(6))
  have d': "free_descriptor_sets narrow p' = (None, p')"
    by (simp add: free_descriptor_sets_def assms(6))
  have "transient_resource_pool_reset narrow dev' p'
      = (None, p'\<lparr>pool_uniform_buffer := dynamic_buffer_reset (pool_uniform_buffer p'),
                     pool_vertex_buffer := dynamic_buffer_reset (pool_vertex_buffer p'),
                     pool_index_buffer := dynamic_buffer_reset (pool_index_buffer p')\<rparr>)"
    by (simp add: transient_resource_pool_reset_def ok' c' d')
  also have "\<dots> = (None, p')"
    by (simp add: assms(6) dynamic_buffer_reset_def)
  finally have 2: "transient_resource_pool_reset narrow dev' p' = (None, p')" .
  have al: "db_alignment (pool_uniform_buffer p) \<noteq> 0" "db_alignment (pool_vertex_buffer p) \<noteq> 0"
    "db_alignment (pool_index_buffer p) \<noteq> 0"
    using assms(5) by (simp_all add: allocators_def)
  have 3: "dynamic_buffer_begin (pool_uniform_buffer p') = Inr (pool_uniform_buffer p')"
    using begin_after_reset [OF al(1)] by (simp add: assms(6))
  have 4: "dynamic_buffer_begin (pool_vertex_buffer p') = Inr (pool_vertex_buffer p')"
    using begin_after_reset [OF al(2)] by (simp add: assms(6))
  have 5: "dynamic_buffer_begin (pool_index_buffer p') = Inr (pool_index_buffer p')"
    using begin_after_reset [OF al(3)] by (simp add: assms(6))
  have 6: "\<forall>b \<in> set (allocators p'). db_offset b = 0 \<and> db_range b = 0"
    by (simp add: allocators_def assms(6))
  show ?thesis using 1 2 3 4 5 6 by blast
qed

theorem transient_resource_pool_reset_idempotent_witness:
  "all_succeed device_ok
   \<and> checked_narrow (of_nat (length (pool_command_buffers example_pool))) = Inr 2
   \<and> checked_narrow (of_nat (length (pool_descriptor_sets example_pool))) = Inr 1
   \<and> db_alignment (pool_uniform_buffer example_pool) = 256
   \<and> db_alignment (pool_vertex_buffer example_pool) = 16
   \<and> db_alignment (pool_index_buffer example_pool) = 4
   \<and> transient_resource_pool_reset checked_narrow device_ok example_pool
       = (None, example_pool_reset)
   \<and> transient_resource_pool_reset checked_narrow device_ok example_pool_reset
       = (None, example_pool_reset)
   \<and> dynamic_buffer_begin \<lparr>db_buffer = 7, db_alignment = 256, db_offset = 0, db_range = 0\<rparr>
       = Inr \<lparr>db_buffer = 7, db_alignment = 256, db_offset = 0, db_range = 0\<rparr>
   \<and> dynamic_buffer_begin \<lparr>db_buffer = 8, db_alignment = 16, db_offset = 0, db_range = 0\<rparr>
       = Inr \<lparr>db_buffer = 8, db_alignment = 16, db_offset = 0, db_range = 0\<rparr>
   \<and> dynamic_buffer_begin \<lparr>db_buffer = 9, db_alignment = 4, db_offset = 0, db_range = 0\<rparr>
       = Inr \<lparr>db_buffer = 9, db_alignment = 4, db_offset = 0, db_range = 0\<rparr>"
proof -
  have ok: "all_succeed device_ok" by (simp add: all_succeed_def device_ok_def VK_SUCCESS_def)
  have nc: "pool_command_buffers example_pool \<noteq> []
      \<longrightarrow> checked_narrow (of_nat (length (pool_command_buffers example_pool))) = Inr 2"
    by (simp add: example_pool_def checked_narrow_def)
  have nd: "pool_descriptor_sets example_pool \<noteq> []
      \<longrightarrow> checked_narrow (of_nat (length (pool_descriptor_sets example_pool))) = Inr 1"
    by (simp add: example_pool_def checked_narrow_def)
  have al: "\<forall>b \<in> set (allocators example_pool). db_alignment b \<noteq> 0"
    by (simp add: allocators_def example_pool_def)
  have p': "example_pool_reset = example_pool\<lparr>pool_command_buffers := [], pool_descriptor_sets := [],
      pool_uniform_buffer := (pool_uniform_buffer example_pool)\<lparr>db_offset := 0, db_range := 0\<rparr>,
      pool_vertex_buffer := (pool_vertex_buffer example_pool)\<lparr>db_offset := 0, db_range := 0\<rparr>,
      pool_index_buffer := (pool_index_buffer example_pool)\<lparr>db_offset := 0, db_range := 0\<rparr>\<rparr>"
    by (simp add: example_pool_reset_def example_pool_def)
  have f: "pool_uniform_buffer example_pool_reset
        = \<lparr>db_buffer = 7, db_alignment = 256, db_offset = 0, db_range = 0\<rparr>"
    "pool_vertex_buffer example_pool_reset
        = \<lparr>db_buffer = 8, db_alignment = 16, db_offset = 0, db_range = 0\<rparr>"
    "pool_index_buffer example_pool_reset
        = \<lparr>db_buffer = 9, db_alignment = 4, db_offset = 0, db_range = 0\<rparr>"
    by (simp_all add: example_pool_reset_def)
  have g: "checked_narrow (of_nat (length (pool_command_buffers example_pool))) = Inr 2"
    "checked_narrow (of_nat (length (pool_descriptor_sets example_pool))) = Inr 1"
    "db_alignment (pool_uniform_buffer example_pool) = 256"
    "db_alignment (pool_vertex_buffer example_pool) = 16"
    "db_alignment (pool_index_buffer example_pool) = 4"
    by (simp_all add: example_pool_def checked_narrow_def)
  from transient_resource_pool_reset_idempotent [OF ok ok nc nd al p']
  have "transient_resource_pool_reset checked_narrow device_ok example_pool
          = (None, example_pool_reset)"
    "transient_resource_pool_reset checked_narrow device_ok example_pool_reset
          = (None, example_pool_reset)"
    "dynamic_buffer_begin (pool_uniform_buffer example_pool_reset)
          = Inr (pool_uniform_buffer example_pool_reset)"
    "dynamic_buffer_begin (pool_vertex_buffer example_pool_reset)
          = Inr (pool_vertex_buffer example_pool_reset)"
    "dynamic_buffer_begin (pool_index_buffer example_pool_reset)
          = Inr (pool_index_buffer example_pool_reset)"
    by blast+
  then show ?thesis using ok g by (simp add: f)
qed

section \<open>Properties of the draw list\<close>

lemma store_vertex_buffers_step:
  assumes "i < length vbs \<and> i < 4"
  shows "store_vertex_buffers i vbs item
         = store_vertex_buffers (Suc i) vbs
             (item\<lparr>vertex_buffers := (vertex_buffers item)[i := bi_buffer (vbs ! i)],
                   vertex_buffer_offsets := (vertex_buffer_offsets item)[i := bi_offset (vbs ! i)]\<rparr>)"
  by (subst store_vertex_buffers.simps) (rule if_P [OF assms])

lemma store_vertex_buffers_stop:
  assumes "\<not> (i < length vbs \<and> i < 4)"
  shows "store_vertex_buffers i vbs item = item"
  by (subst store_vertex_buffers.simps) (rule if_not_P [OF assms])

lemma store_vertex_buffers_other:
  "vertex_buffer_count (store_vertex_buffers i vbs item) = vertex_buffer_count item
   \<and> item_material (store_vertex_buffers i vbs item) = item_material item
   \<and> item_set (store_vertex_buffers i vbs item) = item_set item
   \<and> length (vertex_buffers (store_vertex_buffers i vbs item)) = length (vertex_buffers item)
   \<and> length (vertex_buffer_offsets (store_vertex_buffers i vbs item))
       = length (vertex_buffer_offsets item)"
proof (induction i vbs item rule: store_vertex_buffers.induct)
  case (1 i vbs item)
  show ?case
  proof (cases "i < length vbs \<and> i < 4")
    case True
    then show ?thesis
      using "1.IH" by (simp add: store_vertex_buffers_step [OF True])
  next
    case False
    then show ?thesis by (simp add: store_vertex_buffers_stop [OF False])
  qed
qed

lemma store_vertex_buffers_nth:
  assumes "length (vertex_buffers item) = 4" and "length (vertex_buffer_offsets item) = 4"
    and "j < 4"
  shows "vertex_buffers (store_vertex_buffers i vbs item) ! j
           = (if i \<le> j \<and> j < length vbs then bi_buffer (vbs ! j) else vertex_buffers item ! j)
       \<and> vertex_buffer_offsets (store_vertex_buffers i vbs item) ! j
           = (if i \<le> j \<and> j < length vbs then bi_offset (vbs ! j)
              else vertex_buffer_offsets item ! j)"
  using assms
proof (induction i vbs item rule: store_vertex_buffers.induct)
  case (1 i vbs item)
  show ?case
  proof (cases "i < length vbs \<and> i < 4")
    case True
    let ?item' = "item\<lparr>vertex_buffers := (vertex_buffers item)[i := bi_buffer (vbs ! i)],
                   vertex_buffer_offsets := (vertex_buffer_offsets item)[i := bi_offset (vbs ! i)]\<rparr>"
    have unfold: "store_vertex_buffers i vbs item = store_vertex_buffers (Suc i) vbs ?item'"
      using True by (rule store_vertex_buffers_step)
    have "vertex_buffers (store_vertex_buffers (Suc i) vbs ?item') ! j
           = (if Suc i \<le> j \<and> j < length vbs then bi_buffer (vbs ! j) else vertex_buffers ?item' ! j)
       \<and> vertex_buffer_offsets (store_vertex_buffers (Suc i) vbs ?item') ! j
           = (if Suc i \<le> j \<and> j < length vbs then bi_offset (vbs ! j)
              else vertex_buffer_offsets ?item' ! j)"
      using "1.IH" [OF True] "1.prems" by simp
    then show ?thesis
      unfolding unfold using True "1.prems" by (auto simp: nth_list_update)
  next
    case False
    then have "store_vertex_buffers i vbs item = item"
      by (rule store_vertex_buffers_stop)
    then show ?thesis using False "1.prems" by auto
  qed
qed

text \<open>
  C2: when the material of the descriptor set belongs to a contract other than the draw
  list's (the two contracts are different objects), every \<open>draw\<close> overload ends in
  \<open>fail_fast()\<close> and leaves the draw list, and so its item sequence, as it was. No
  overload takes a command buffer: commands are recorded by \<open>write_commands\<close> only.
\<close>
theorem draw_foreign_contract_fails_fast:
  assumes "sds_material descriptors = Some mat"
    and "contract_address (mat_contract mat) \<noteq> contract_address (dl_contract dl)"
  shows "draw_buffers narrow descriptors vbs ib n_indices n_instances dl = (Some Fail_fast, dl)
     \<and> draw_mesh_subset_instanced narrow descriptors mesh mtls instances instance_stride dl
         = (Some Fail_fast, dl)
     \<and> draw_mesh_instanced narrow descriptors mesh instances instance_stride dl
         = (Some Fail_fast, dl)
     \<and> draw_mesh_subset narrow descriptors mesh mtls dl = (Some Fail_fast, dl)
     \<and> draw_mesh narrow descriptors mesh dl = (Some Fail_fast, dl)"
  using assms
  by (simp add: draw_buffers_def draw_mesh_subset_instanced_def draw_mesh_instanced_def
      draw_mesh_subset_def draw_mesh_def)

theorem draw_foreign_contract_fails_fast_witness:
  "sds_material foreign_set = Some foreign_material
   \<and> contract_address (mat_contract foreign_material) = 200
   \<and> contract_address (dl_contract example_list) = 100
   \<and> draw_buffers checked_narrow foreign_set [vertex_binding 1 0] (vertex_binding 2 0) 3 1 example_list
       = (Some Fail_fast, example_list)
   \<and> draw_mesh_subset checked_narrow foreign_set example_mesh [1, 2] example_list
       = (Some Fail_fast, example_list)
   \<and> items example_list = []"
proof -
  have m: "sds_material foreign_set = Some foreign_material" by (simp add: foreign_set_def)
  have a: "contract_address (mat_contract foreign_material) = 200"
    by (simp add: foreign_material_def other_contract_def)
  have b: "contract_address (dl_contract example_list) = 100"
    by (simp add: example_list_def example_contract_def)
  have ne: "contract_address (mat_contract foreign_material)
      \<noteq> contract_address (dl_contract example_list)"
    by (simp add: a b)
  have e: "items example_list = []" by (simp add: example_list_def)
  show ?thesis
    using m a b e draw_foreign_contract_fails_fast [OF m ne] by simp
qed

lemma collect_shared_sets_mismatch:
  "(d, l) \<in> set ps \<Longrightarrow> sds_layout d \<noteq> l
     \<Longrightarrow> collect_shared_sets ps sets = Inl (Runtime_error ''contract violation'')"
proof (induction ps arbitrary: sets)
  case Nil
  then show ?case by simp
next
  case (Cons p ps)
  obtain d' l' where p: "p = (d', l')" by (cases p)
  show ?case
  proof (cases "sds_layout d' \<noteq> l'")
    case True
    then show ?thesis by (simp add: p)
  next
    case False
    with Cons.prems p have "(d, l) \<in> set ps" by auto
    with Cons.IH Cons.prems(2) False show ?thesis by (simp add: p)
  qed
qed

lemma collect_shared_sets_match:
  "\<forall>(d, l) \<in> set ps. sds_layout d = l
     \<Longrightarrow> collect_shared_sets ps sets = Inr (sets @ map (sds_set \<circ> fst) ps)"
  by (induction ps arbitrary: sets) auto

text \<open>
  C3: when the number of shared descriptor sets differs from the number of the contract's
  shared layouts, or some supplied set's layout differs from the contract's layout at
  the same index, \<open>write_commands\<close> throws (\<open>std::runtime_error\<close>, "contract
  violation") and the command buffer holds what it held before: nothing is recorded.
\<close>
theorem write_commands_contract_violation:
  assumes "length shared_descriptors \<noteq> length (shared_layouts (dl_contract dl))
     \<or> (\<exists>i < length shared_descriptors.
          sds_layout (shared_descriptors ! i) \<noteq> shared_layouts (dl_contract dl) ! i)"
  shows "write_commands narrow get_render_pass_index dl render_pass shared_descriptors cmd
         = (Some (Runtime_error ''contract violation''), cmd)"
proof (cases "length shared_descriptors \<noteq> length (shared_layouts (dl_contract dl))")
  case True
  then show ?thesis by (simp add: write_commands_def)
next
  case False
  with assms obtain i where i: "i < length shared_descriptors"
    "sds_layout (shared_descriptors ! i) \<noteq> shared_layouts (dl_contract dl) ! i" by blast
  have "(shared_descriptors ! i, shared_layouts (dl_contract dl) ! i)
      \<in> set (zip shared_descriptors (shared_layouts (dl_contract dl)))"
    using i(1) False by (auto simp: set_zip)
  then have "collect_shared_sets (zip shared_descriptors (shared_layouts (dl_contract dl))) []
      = Inl (Runtime_error ''contract violation'')"
    using i(2) by (rule collect_shared_sets_mismatch)
  moreover have "shared_descriptors \<noteq> []" "shared_layouts (dl_contract dl) \<noteq> []"
    using i(1) False by auto
  ultimately show ?thesis using False by (simp add: write_commands_def Let_def)
qed

theorem write_commands_contract_violation_witness:
  "length [wrong_shared_set] = length (shared_layouts (dl_contract example_list))
   \<and> sds_layout ([wrong_shared_set] ! 0) = 14
   \<and> shared_layouts (dl_contract example_list) ! 0 = 11
   \<and> write_commands checked_narrow lookup_render_pass example_list 500 [wrong_shared_set] []
       = (Some (Runtime_error ''contract violation''), [])
   \<and> write_commands checked_narrow lookup_render_pass example_list 500 [] []
       = (Some (Runtime_error ''contract violation''), [])"
proof -
  have l: "shared_layouts (dl_contract example_list) = [11]"
    by (simp add: example_list_def example_contract_def)
  have w: "sds_layout wrong_shared_set = 14" by (simp add: wrong_shared_set_def)
  have 1: "length [wrong_shared_set] \<noteq> length (shared_layouts (dl_contract example_list))
     \<or> (\<exists>i < length [wrong_shared_set].
          sds_layout ([wrong_shared_set] ! i) \<noteq> shared_layouts (dl_contract example_list) ! i)"
    by (simp add: l w)
  have 2: "length ([] :: scene_descriptor_set list) \<noteq> length (shared_layouts (dl_contract example_list))
     \<or> (\<exists>i < length ([] :: scene_descriptor_set list).
          sds_layout ([] ! i) \<noteq> shared_layouts (dl_contract example_list) ! i)"
    by (simp add: l)
  show ?thesis
    using write_commands_contract_violation [OF 1, of checked_narrow lookup_render_pass 500 "[]"]
      write_commands_contract_violation [OF 2, of checked_narrow lookup_render_pass 500 "[]"]
    by (simp add: l w)
qed

lemma unat_ucast_fits:
  fixes x :: "64 word"
  assumes "unat x < 2 ^ 32"
  shows "unat (ucast x :: 32 word) = unat x"
proof -
  have "unat (ucast x :: 32 word) = take_bit LENGTH(32) (unat x)"
    by (rule unsigned_ucast_eq)
  also have "\<dots> = unat x" using assms by (simp add: take_bit_nat_eq_self)
  finally show ?thesis .
qed

lemma narrow_times_3:
  fixes x :: "64 word"
  assumes "narrow_exact narrow" and "3 * unat x < 2 ^ 32"
  shows "\<exists>y. narrow (x * 3) = Inr y \<and> unat y = 3 * unat x"
proof -
  have "unat x * unat (3 :: 64 word) < 2 ^ LENGTH(64)" using assms(2) by simp
  then have "unat (x * 3) = unat x * unat (3 :: 64 word)" by (rule unat_mult_lem [THEN iffD1])
  then have u: "unat (x * 3) = 3 * unat x" by simp
  then have "narrow (x * 3) = Inr (ucast (x * 3))"
    using assms by (simp add: narrow_exact_def)
  moreover have "unat (ucast (x * 3) :: 32 word) = 3 * unat x"
    using u assms(2) by (simp add: unat_ucast_fits)
  ultimately show ?thesis by blast
qed

lemma narrow_fits:
  fixes x :: "64 word"
  assumes "narrow_exact narrow" and "unat x < 2 ^ 32"
  shows "\<exists>y. narrow x = Inr y \<and> unat y = unat x"
  using assms by (simp add: narrow_exact_def unat_ucast_fits)

text \<open>What the loop over the materials appends, when every conversion succeeds.\<close>

lemma draw_materials_appends:
  assumes "narrow_exact narrow"
    and "\<forall>mtl \<in> set mtls. mtl < length (materials mesh)
           \<and> 3 * unat (first_triangle (materials mesh ! mtl)) < 2 ^ 32
           \<and> 3 * unat (num_triangles (materials mesh ! mtl)) < 2 ^ 32"
  shows "\<exists>new. draw_materials narrow mesh item mtls dl = (None, dl\<lparr>items := items dl @ new\<rparr>)
     \<and> length new = length mtls
     \<and> (\<forall>k < length mtls.
           unat (first_index (new ! k)) = 3 * unat (first_triangle (materials mesh ! (mtls ! k)))
         \<and> unat (index_count (new ! k)) = 3 * unat (num_triangles (materials mesh ! (mtls ! k)))
         \<and> new ! k = item\<lparr>first_index := first_index (new ! k),
                            index_count := index_count (new ! k)\<rparr>)"
  using assms(2)
proof (induction mtls arbitrary: item dl)
  case Nil
  have "dl = dl\<lparr>items := items dl @ []\<rparr>" by simp
  then show ?case by (metis draw_materials.simps(1) list.size(3) not_less_zero)
next
  case (Cons mtl mtls)
  let ?m = "materials mesh ! mtl"
  from Cons.prems have inr: "mtl < length (materials mesh)"
    and f: "3 * unat (first_triangle ?m) < 2 ^ 32" and c: "3 * unat (num_triangles ?m) < 2 ^ 32"
    by simp_all
  from narrow_times_3 [OF assms(1) f] obtain fi where
    fi: "narrow (first_triangle ?m * 3) = Inr fi" "unat fi = 3 * unat (first_triangle ?m)" by blast
  from narrow_times_3 [OF assms(1) c] obtain ic where
    ic: "narrow (num_triangles ?m * 3) = Inr ic" "unat ic = 3 * unat (num_triangles ?m)" by blast
  let ?item' = "item\<lparr>first_index := fi, index_count := ic\<rparr>"
  let ?dl' = "dl\<lparr>items := items dl @ [?item']\<rparr>"
  have step: "draw_materials narrow mesh item (mtl # mtls) dl
      = draw_materials narrow mesh ?item' mtls ?dl'"
    using inr fi(1) ic(1) by (simp add: Let_def)
  from Cons.IH [of ?item' ?dl'] Cons.prems
  obtain new where new: "draw_materials narrow mesh ?item' mtls ?dl'
        = (None, ?dl'\<lparr>items := items ?dl' @ new\<rparr>)"
    "length new = length mtls"
    "\<forall>k < length mtls.
           unat (first_index (new ! k)) = 3 * unat (first_triangle (materials mesh ! (mtls ! k)))
         \<and> unat (index_count (new ! k)) = 3 * unat (num_triangles (materials mesh ! (mtls ! k)))
         \<and> new ! k = ?item'\<lparr>first_index := first_index (new ! k),
                            index_count := index_count (new ! k)\<rparr>"
    by auto
  have 1: "draw_materials narrow mesh item (mtl # mtls) dl
      = (None, dl\<lparr>items := items dl @ (?item' # new)\<rparr>)"
    using step new(1) by simp
  have 2: "length (?item' # new) = length (mtl # mtls)" using new(2) by simp
  have 3: "unat (first_index ((?item' # new) ! k))
             = 3 * unat (first_triangle (materials mesh ! ((mtl # mtls) ! k)))
         \<and> unat (index_count ((?item' # new) ! k))
             = 3 * unat (num_triangles (materials mesh ! ((mtl # mtls) ! k)))
         \<and> (?item' # new) ! k = item\<lparr>first_index := first_index ((?item' # new) ! k),
                            index_count := index_count ((?item' # new) ! k)\<rparr>"
    if "k < length (mtl # mtls)" for k
  proof (cases k)
    case 0
    then show ?thesis using fi(2) ic(2) by simp
  next
    case (Suc k')
    with that have "k' < length mtls" by simp
    with new(3) have n: "unat (first_index (new ! k')) = 3 * unat (first_triangle (materials mesh ! (mtls ! k')))"
      "unat (index_count (new ! k')) = 3 * unat (num_triangles (materials mesh ! (mtls ! k')))"
      "new ! k' = ?item'\<lparr>first_index := first_index (new ! k'),
                            index_count := index_count (new ! k')\<rparr>"
      by auto
    have "new ! k' = item\<lparr>first_index := first_index (new ! k'),
                            index_count := index_count (new ! k')\<rparr>"
      by (subst n(3)) simp
    then show ?thesis using Suc n(1,2) by simp
  qed
  show ?case using 1 2 3 by blast
qed

text \<open>
  A successful mesh draw, in full: one item per listed material, each with the mesh's
  buffers, the instance binding in slot 1 and its own index range.
\<close>

lemma draw_mesh_subset_instanced_items:
  assumes ne: "narrow_exact narrow"
    and mat: "sds_material descriptors = Some mat"
    and same: "contract_address (mat_contract mat) = contract_address (dl_contract dl)"
    and rng: "\<forall>mtl \<in> set mtls. mtl < length (materials mesh)
           \<and> 3 * unat (first_triangle (materials mesh ! mtl)) < 2 ^ 32
           \<and> 3 * unat (num_triangles (materials mesh ! mtl)) < 2 ^ 32"
    and inst: "instance_stride \<noteq> 0 \<longrightarrow> unat (bi_range instances) div unat instance_stride < 2 ^ 32"
  shows "\<exists>new. draw_mesh_subset_instanced narrow descriptors mesh mtls instances instance_stride dl
           = (None, dl\<lparr>items := items dl @ new\<rparr>)
     \<and> length new = length mtls
     \<and> (\<forall>k < length mtls.
           item_material (new ! k) = mat
         \<and> item_set (new ! k) = sds_set descriptors
         \<and> vertex_buffer_count (new ! k) = (if instance_stride \<noteq> 0 then 2 else 1)
         \<and> vertex_buffers (new ! k) = [mesh_vertex_buffer mesh, bi_buffer instances, 0, 0]
         \<and> vertex_buffer_offsets (new ! k) = [0, bi_offset instances, 0, 0]
         \<and> index_buffer (new ! k) = mesh_index_buffer mesh
         \<and> index_buffer_offset (new ! k) = 0
         \<and> unat (instance_count (new ! k))
             = (if instance_stride \<noteq> 0 then unat (bi_range instances) div unat instance_stride
                else 1)
         \<and> unat (first_index (new ! k)) = 3 * unat (first_triangle (materials mesh ! (mtls ! k)))
         \<and> unat (index_count (new ! k)) = 3 * unat (num_triangles (materials mesh ! (mtls ! k))))"
proof -
  let ?n = "if instance_stride \<noteq> 0 then bi_range instances div instance_stride else 1"
  have "unat ?n < 2 ^ 32" using inst by (simp add: unat_div)
  from narrow_fits [OF ne this] obtain nc where
    nc: "narrow ?n = Inr nc" "unat nc = unat ?n" by blast
  have ncv: "unat nc = (if instance_stride \<noteq> 0
      then unat (bi_range instances) div unat instance_stride else 1)"
    using nc(2) by (simp add: unat_div)
  define item where "item = (new_draw_item mat (sds_set descriptors))
      \<lparr>vertex_buffer_count := (if instance_stride \<noteq> 0 then 2 else 1),
       vertex_buffers := [mesh_vertex_buffer mesh, bi_buffer instances, 0, 0],
       vertex_buffer_offsets := [0, bi_offset instances, 0, 0],
       index_buffer := mesh_index_buffer mesh, index_buffer_offset := 0,
       instance_count := nc\<rparr>"
  have call: "draw_mesh_subset_instanced narrow descriptors mesh mtls instances instance_stride dl
      = draw_materials narrow mesh item mtls dl"
    using mat same nc(1)
    by (simp add: draw_mesh_subset_instanced_def item_def new_draw_item_def Let_def)
  from draw_materials_appends [OF ne rng, of item dl]
  obtain new where new: "draw_materials narrow mesh item mtls dl = (None, dl\<lparr>items := items dl @ new\<rparr>)"
    "length new = length mtls"
    "\<forall>k < length mtls.
           unat (first_index (new ! k)) = 3 * unat (first_triangle (materials mesh ! (mtls ! k)))
         \<and> unat (index_count (new ! k)) = 3 * unat (num_triangles (materials mesh ! (mtls ! k)))
         \<and> new ! k = item\<lparr>first_index := first_index (new ! k),
                            index_count := index_count (new ! k)\<rparr>"
    by blast
  have fields: "item_material (new ! k) = mat
         \<and> item_set (new ! k) = sds_set descriptors
         \<and> vertex_buffer_count (new ! k) = (if instance_stride \<noteq> 0 then 2 else 1)
         \<and> vertex_buffers (new ! k) = [mesh_vertex_buffer mesh, bi_buffer instances, 0, 0]
         \<and> vertex_buffer_offsets (new ! k) = [0, bi_offset instances, 0, 0]
         \<and> index_buffer (new ! k) = mesh_index_buffer mesh
         \<and> index_buffer_offset (new ! k) = 0
         \<and> unat (instance_count (new ! k))
             = (if instance_stride \<noteq> 0 then unat (bi_range instances) div unat instance_stride
                else 1)"
    if "k < length mtls" for k
  proof -
    from new(3) that obtain a b where "new ! k = item\<lparr>first_index := a, index_count := b\<rparr>"
      by blast
    then show ?thesis using ncv by (simp add: item_def new_draw_item_def)
  qed
  have idx: "unat (first_index (new ! k)) = 3 * unat (first_triangle (materials mesh ! (mtls ! k)))
         \<and> unat (index_count (new ! k)) = 3 * unat (num_triangles (materials mesh ! (mtls ! k)))"
    if "k < length mtls" for k
    using new(3) that by blast
  have "draw_mesh_subset_instanced narrow descriptors mesh mtls instances instance_stride dl
           = (None, dl\<lparr>items := items dl @ new\<rparr>)"
    using call new(1) by simp
  then show ?thesis using new(2) fields idx by blast
qed

lemma narrow_exact_checked_narrow: "narrow_exact checked_narrow"
  by (simp add: narrow_exact_def checked_narrow_def)

text \<open>
  C5: a mesh draw with an explicit material subset, on a descriptor set whose material
  belongs to the list's contract, with every listed index inside the mesh's material
  list and every count small enough for 32 bits, appends exactly one item per listed
  index, in the order of the subset; item \<open>k\<close> has
  \<open>first_index = 3 * first_triangle\<close> and \<open>index_count = 3 * num_triangles\<close> of the
  material \<open>mtls[k]\<close>, and every item has the mesh's vertex buffer in slot 0 and the
  mesh's index buffer, both at offset 0. The overload without an instance buffer is the
  case \<open>instances = {}\<close>, \<open>instance_stride = 0\<close>.
\<close>

theorem draw_mesh_subset_one_item_per_material:
  assumes "narrow_exact narrow"
    and "sds_material descriptors = Some mat"
    and "contract_address (mat_contract mat) = contract_address (dl_contract dl)"
    and "\<forall>mtl \<in> set mtls. mtl < length (materials mesh)
           \<and> 3 * unat (first_triangle (materials mesh ! mtl)) < 2 ^ 32
           \<and> 3 * unat (num_triangles (materials mesh ! mtl)) < 2 ^ 32"
    and "instance_stride \<noteq> 0 \<longrightarrow> unat (bi_range instances) div unat instance_stride < 2 ^ 32"
  shows "\<exists>new. draw_mesh_subset_instanced narrow descriptors mesh mtls instances instance_stride dl
           = (None, dl\<lparr>items := items dl @ new\<rparr>)
     \<and> length new = length mtls
     \<and> (\<forall>k < length mtls.
           unat (first_index (new ! k)) = 3 * unat (first_triangle (materials mesh ! (mtls ! k)))
         \<and> unat (index_count (new ! k)) = 3 * unat (num_triangles (materials mesh ! (mtls ! k)))
         \<and> vertex_buffers (new ! k) ! 0 = mesh_vertex_buffer mesh
         \<and> vertex_buffer_offsets (new ! k) ! 0 = 0
         \<and> index_buffer (new ! k) = mesh_index_buffer mesh
         \<and> index_buffer_offset (new ! k) = 0)"
proof -
  from draw_mesh_subset_instanced_items [OF assms]
  obtain new where new:
    "draw_mesh_subset_instanced narrow descriptors mesh mtls instances instance_stride dl
           = (None, dl\<lparr>items := items dl @ new\<rparr>)"
    "length new = length mtls"
    "\<forall>k < length mtls.
           item_material (new ! k) = mat
         \<and> item_set (new ! k) = sds_set descriptors
         \<and> vertex_buffer_count (new ! k) = (if instance_stride \<noteq> 0 then 2 else 1)
         \<and> vertex_buffers (new ! k) = [mesh_vertex_buffer mesh, bi_buffer instances, 0, 0]
         \<and> vertex_buffer_offsets (new ! k) = [0, bi_offset instances, 0, 0]
         \<and> index_buffer (new ! k) = mesh_index_buffer mesh
         \<and> index_buffer_offset (new ! k) = 0
         \<and> unat (instance_count (new ! k))
             = (if instance_stride \<noteq> 0 then unat (bi_range instances) div unat instance_stride
                else 1)
         \<and> unat (first_index (new ! k)) = 3 * unat (first_triangle (materials mesh ! (mtls ! k)))
         \<and> unat (index_count (new ! k)) = 3 * unat (num_triangles (materials mesh ! (mtls ! k)))"
    by blast
  have "\<forall>k < length mtls.
           unat (first_index (new ! k)) = 3 * unat (first_triangle (materials mesh ! (mtls ! k)))
         \<and> unat (index_count (new ! k)) = 3 * unat (num_triangles (materials mesh ! (mtls ! k)))
         \<and> vertex_buffers (new ! k) ! 0 = mesh_vertex_buffer mesh
         \<and> vertex_buffer_offsets (new ! k) ! 0 = 0
         \<and> index_buffer (new ! k) = mesh_index_buffer mesh
         \<and> index_buffer_offset (new ! k) = 0"
    using new(3) by simp
  with new(1,2) show ?thesis by blast
qed

theorem draw_mesh_subset_one_item_per_material_witness:
  "narrow_exact checked_narrow
   \<and> sds_material example_set = Some example_material
   \<and> contract_address (mat_contract example_material) = contract_address (dl_contract example_list)
   \<and> (\<exists>new. draw_mesh_subset checked_narrow example_set example_mesh [1, 2] example_list
              = (None, example_list\<lparr>items := items example_list @ new\<rparr>)
        \<and> length new = 2
        \<and> unat (first_index (new ! 0)) = 30 \<and> unat (index_count (new ! 0)) = 90
        \<and> unat (first_index (new ! 1)) = 120 \<and> unat (index_count (new ! 1)) = 15)"
proof -
  have mat: "sds_material example_set = Some example_material" by (simp add: example_set_def)
  have same: "contract_address (mat_contract example_material)
      = contract_address (dl_contract example_list)"
    by (simp add: example_material_def example_list_def)
  have rng: "\<forall>mtl \<in> set [1, 2]. mtl < length (materials example_mesh)
           \<and> 3 * unat (first_triangle (materials example_mesh ! mtl)) < 2 ^ 32
           \<and> 3 * unat (num_triangles (materials example_mesh ! mtl)) < 2 ^ 32"
    by (simp add: example_mesh_def)
  have inst: "(0 :: 64 word) \<noteq> 0 \<longrightarrow> unat (bi_range no_buffer_info) div unat (0 :: 64 word) < 2 ^ 32"
    by simp
  from draw_mesh_subset_one_item_per_material
    [OF narrow_exact_checked_narrow mat same rng inst]
  obtain new where new:
    "draw_mesh_subset_instanced checked_narrow example_set example_mesh [1, 2] no_buffer_info 0
       example_list = (None, example_list\<lparr>items := items example_list @ new\<rparr>)"
    "length new = length [1 :: nat, 2]"
    "\<forall>k < length [1 :: nat, 2].
           unat (first_index (new ! k))
             = 3 * unat (first_triangle (materials example_mesh ! ([1, 2] ! k)))
         \<and> unat (index_count (new ! k))
             = 3 * unat (num_triangles (materials example_mesh ! ([1, 2] ! k)))
         \<and> vertex_buffers (new ! k) ! 0 = mesh_vertex_buffer example_mesh
         \<and> vertex_buffer_offsets (new ! k) ! 0 = 0
         \<and> index_buffer (new ! k) = mesh_index_buffer example_mesh
         \<and> index_buffer_offset (new ! k) = 0"
    by blast
  from new(3) have "unat (first_index (new ! 0)) = 30 \<and> unat (index_count (new ! 0)) = 90"
    by (simp add: example_mesh_def)
  moreover from new(3) have "unat (first_index (new ! 1)) = 120 \<and> unat (index_count (new ! 1)) = 15"
    by (simp add: example_mesh_def)
  ultimately show ?thesis
    using narrow_exact_checked_narrow mat same new(1,2)
    by (auto simp: draw_mesh_subset_def)
qed



text \<open>What \<open>write_commands\<close> binds for an item is what the count says, never more than 4.\<close>

lemma write_item_binds_counted_buffers:
  assumes "write_item narrow render_pass_index n_shared item cmd = (None, cmd')"
  shows "vertex_buffer_count item \<le> 4
     \<and> CmdBindVertexBuffers (take (vertex_buffer_count item) (vertex_buffers item))
          (take (vertex_buffer_count item) (vertex_buffer_offsets item)) \<in> set cmd'"
  using assms
  by (auto simp: write_item_def vkCmdBindDescriptorSets_def Let_def
      split: if_splits sum.splits prod.splits option.splits)

lemma write_item_count_above_four:
  assumes "4 < vertex_buffer_count item"
  shows "fst (write_item narrow render_pass_index n_shared item cmd) \<noteq> None"
  using assms
  by (auto simp: write_item_def vkCmdBindDescriptorSets_def Let_def
      split: if_splits sum.splits prod.splits option.splits)

text \<open>
  C10: a buffer-level draw on a descriptor set of the list's contract, whose two counts
  convert, appends one item. Its \<open>vertex_buffer_count\<close> is the number of bindings
  passed, whatever that number is; its two arrays have 4 entries, and entry \<open>j\<close> holds
  binding \<open>j\<close> when there is one and zero otherwise. So at most 4 bindings are all
  stored as passed, and of more than 4 only the first 4 are.
\<close>

theorem draw_buffers_stores_first_four:
  assumes "sds_material descriptors = Some mat"
    and "contract_address (mat_contract mat) = contract_address (dl_contract dl)"
    and "narrow n_indices = Inr ic" and "narrow n_instances = Inr nc"
  shows "\<exists>item. draw_buffers narrow descriptors vbs ib n_indices n_instances dl
           = (None, dl\<lparr>items := items dl @ [item]\<rparr>)
     \<and> vertex_buffer_count item = length vbs
     \<and> length (vertex_buffers item) = 4 \<and> length (vertex_buffer_offsets item) = 4
     \<and> (\<forall>j < 4. vertex_buffers item ! j = (if j < length vbs then bi_buffer (vbs ! j) else 0)
              \<and> vertex_buffer_offsets item ! j
                  = (if j < length vbs then bi_offset (vbs ! j) else 0))"
proof -
  define item0 where "item0 = (new_draw_item mat (sds_set descriptors))
                          \<lparr>vertex_buffer_count := length vbs\<rparr>"
  define item1 where "item1 = store_vertex_buffers 0 vbs item0"
  define item where "item = item1\<lparr>index_buffer := bi_buffer ib,
      index_buffer_offset := bi_offset ib, first_index := 0, index_count := ic,
      instance_count := nc\<rparr>"
  have l0: "length (vertex_buffers item0) = 4" "length (vertex_buffer_offsets item0) = 4"
    by (simp_all add: item0_def new_draw_item_def)
  have z0: "vertex_buffers item0 ! j = 0 \<and> vertex_buffer_offsets item0 ! j = 0" if "j < 4" for j
  proof -
    from that have "j = 0 \<or> j = 1 \<or> j = 2 \<or> j = 3" by arith
    then show ?thesis by (auto simp: item0_def new_draw_item_def)
  qed
  have call: "draw_buffers narrow descriptors vbs ib n_indices n_instances dl
      = (None, dl\<lparr>items := items dl @ [item]\<rparr>)"
    using assms by (simp add: draw_buffers_def Let_def item_def item1_def item0_def)
  have cnt: "vertex_buffer_count item = length vbs"
    using store_vertex_buffers_other [of 0 vbs item0]
    by (simp add: item_def item1_def) (simp add: item0_def)
  have len: "length (vertex_buffers item) = 4 \<and> length (vertex_buffer_offsets item) = 4"
    using store_vertex_buffers_other [of 0 vbs item0] l0
    by (simp add: item_def item1_def)
  have nth: "vertex_buffers item ! j = (if j < length vbs then bi_buffer (vbs ! j) else 0)
              \<and> vertex_buffer_offsets item ! j
                  = (if j < length vbs then bi_offset (vbs ! j) else 0)"
    if "j < 4" for j
    using store_vertex_buffers_nth [OF l0 that, of 0 vbs] z0 [OF that]
    by (simp add: item_def item1_def)
  show ?thesis using call cnt len nth by blast
qed

theorem draw_buffers_stores_first_four_witness:
  "sds_material example_set = Some example_material
   \<and> contract_address (mat_contract example_material) = contract_address (dl_contract example_list)
   \<and> checked_narrow 36 = Inr 36 \<and> checked_narrow 1 = Inr 1
   \<and> (\<exists>item. draw_buffers checked_narrow example_set
                 [vertex_binding 51 0, vertex_binding 52 16, vertex_binding 53 32, vertex_binding 54 48, vertex_binding 55 64]
                 (vertex_binding 42 0) 36 1 example_list
              = (None, example_list\<lparr>items := items example_list @ [item]\<rparr>)
        \<and> vertex_buffer_count item = 5
        \<and> length (vertex_buffers item) = 4
        \<and> vertex_buffers item ! 0 = 51 \<and> vertex_buffers item ! 3 = 54
        \<and> vertex_buffer_offsets item ! 3 = 48)
   \<and> (\<exists>item. draw_buffers checked_narrow example_set [vertex_binding 51 0, vertex_binding 52 16]
                 (vertex_binding 42 0) 36 1 example_list
              = (None, example_list\<lparr>items := items example_list @ [item]\<rparr>)
        \<and> vertex_buffer_count item = 2
        \<and> vertex_buffers item ! 0 = 51 \<and> vertex_buffers item ! 1 = 52
        \<and> vertex_buffer_offsets item ! 1 = 16 \<and> vertex_buffers item ! 2 = 0)"
proof -
  have mat: "sds_material example_set = Some example_material" by (simp add: example_set_def)
  have same: "contract_address (mat_contract example_material)
      = contract_address (dl_contract example_list)"
    by (simp add: example_material_def example_list_def)
  have n1: "checked_narrow 36 = Inr 36" and n2: "checked_narrow 1 = Inr 1"
    by (simp_all add: checked_narrow_def)
  let ?five = "[vertex_binding 51 0, vertex_binding 52 16, vertex_binding 53 32, vertex_binding 54 48, vertex_binding 55 64]"
  let ?two = "[vertex_binding 51 0, vertex_binding 52 16]"
  from draw_buffers_stores_first_four [OF mat same n1 n2, of ?five "vertex_binding 42 0"]
  obtain item where item: "draw_buffers checked_narrow example_set ?five (vertex_binding 42 0) 36 1
        example_list = (None, example_list\<lparr>items := items example_list @ [item]\<rparr>)"
      "vertex_buffer_count item = length ?five" "length (vertex_buffers item) = 4"
      "\<forall>j < 4. vertex_buffers item ! j = (if j < length ?five then bi_buffer (?five ! j) else 0)
              \<and> vertex_buffer_offsets item ! j
                  = (if j < length ?five then bi_offset (?five ! j) else 0)"
    by blast
  from item(4) have "vertex_buffers item ! 0 = 51" "vertex_buffers item ! 3 = 54"
    "vertex_buffer_offsets item ! 3 = 48"
    by (simp_all add: vertex_binding_def)
  with item(1,2,3) have a: "\<exists>item. draw_buffers checked_narrow example_set ?five
                 (vertex_binding 42 0) 36 1 example_list
              = (None, example_list\<lparr>items := items example_list @ [item]\<rparr>)
        \<and> vertex_buffer_count item = 5
        \<and> length (vertex_buffers item) = 4
        \<and> vertex_buffers item ! 0 = 51 \<and> vertex_buffers item ! 3 = 54
        \<and> vertex_buffer_offsets item ! 3 = 48"
    by (intro exI [of _ item]) simp
  from draw_buffers_stores_first_four [OF mat same n1 n2, of ?two "vertex_binding 42 0"]
  obtain item' where item': "draw_buffers checked_narrow example_set ?two (vertex_binding 42 0) 36 1
        example_list = (None, example_list\<lparr>items := items example_list @ [item']\<rparr>)"
      "vertex_buffer_count item' = length ?two"
      "\<forall>j < 4. vertex_buffers item' ! j = (if j < length ?two then bi_buffer (?two ! j) else 0)
              \<and> vertex_buffer_offsets item' ! j
                  = (if j < length ?two then bi_offset (?two ! j) else 0)"
    by blast
  from item'(3) have "vertex_buffers item' ! 0 = 51" "vertex_buffers item' ! 1 = 52"
    "vertex_buffer_offsets item' ! 1 = 16" "vertex_buffers item' ! 2 = 0"
    by (simp_all add: vertex_binding_def)
  with item'(1,2) have b: "\<exists>item. draw_buffers checked_narrow example_set ?two
                 (vertex_binding 42 0) 36 1 example_list
              = (None, example_list\<lparr>items := items example_list @ [item]\<rparr>)
        \<and> vertex_buffer_count item = 2
        \<and> vertex_buffers item ! 0 = 51 \<and> vertex_buffers item ! 1 = 52
        \<and> vertex_buffer_offsets item ! 1 = 16 \<and> vertex_buffers item ! 2 = 0"
    by (intro exI [of _ item']) simp
  show ?thesis using mat same n1 n2 a b by blast
qed

text \<open>
  The example scene end to end: one instanced draw of materials 1 and 2, recorded for
  the pass at address 500 with the matching shared set.
\<close>

lemma example_scene_commands:
  "write_commands checked_narrow lookup_render_pass
     (snd (draw_mesh_subset_instanced checked_narrow example_set example_mesh [1, 2]
             example_instances 64 example_list))
     500 [shared_set] []
   = (None,
      [CmdBindDescriptorSets 12 0 [33],
       CmdBindPipeline 23, CmdBindDescriptorSets 22 1 [31],
       CmdBindVertexBuffers [41, 43] [0, 128], CmdBindIndexBuffer 42 0, CmdDrawIndexed 90 10 30,
       CmdBindPipeline 23, CmdBindDescriptorSets 22 1 [31],
       CmdBindVertexBuffers [41, 43] [0, 128], CmdBindIndexBuffer 42 0, CmdDrawIndexed 15 10 120])"
  by (simp add: write_commands_def draw_mesh_subset_instanced_def example_set_def
      example_material_def example_list_def example_contract_def example_mesh_def
      example_instances_def shared_set_def checked_narrow_def new_draw_item_def
      vkCmdBindDescriptorSets_def write_item_def lookup_render_pass_def Let_def)

section \<open>Properties of the binding merge\<close>

lemma merge_stages_eq_merge_all_aux:
  "merge_descriptors k sf ds bs
   = merge_all (map (\<lambda>d. get_descriptor_set_layout_binding (d_binding d) (d_type d) sf)
                 (filter (\<lambda>d. d_set d = k) ds)) bs"
  by (induction ds arbitrary: bs) (auto split: sum.splits)

lemma merge_all_append:
  "merge_all (xs @ ys) bs = (case merge_all xs bs of Inl e \<Rightarrow> Inl e | Inr bs' \<Rightarrow> merge_all ys bs')"
  by (induction xs arbitrary: bs) (auto split: sum.splits)

lemma merge_stages_eq_merge_all:
  "merge_stages k stages bs = merge_all (declarations k stages) bs"
proof (induction stages arbitrary: bs)
  case Nil
  then show ?case by (simp add: declarations_def)
next
  case (Cons s ss)
  have "declarations k (s # ss) = stage_declarations k s @ declarations k ss"
    by (simp add: declarations_def)
  then show ?case
    using Cons.IH
    by (simp add: merge_all_append merge_stages_eq_merge_all_aux stage_declarations_def
        split: sum.splits)
qed

text \<open>One merge step, read through \<open>entry\<close>.\<close>

lemma merge_binding_fails_iff:
  "(\<exists>e. merge_binding db bs = Inl e)
     \<longleftrightarrow> (\<exists>b. entry (binding db) bs = Some b
              \<and> (descriptorType b \<noteq> descriptorType db \<or> descriptorCount b \<noteq> descriptorCount db))"
  by (induction bs) (auto split: sum.splits)

lemma merge_binding_error:
  "merge_binding db bs = Inl e
     \<Longrightarrow> e = Runtime_error ''descriptor type mismatch''
         \<or> e = Runtime_error ''descriptor count mismatch''"
  by (induction bs) (auto split: sum.splits if_splits)

lemma merge_binding_entry:
  assumes "merge_binding db bs = Inr bs'"
  shows "entry n bs' =
           (if n = binding db
            then (case entry n bs of
                    None \<Rightarrow> Some db
                  | Some b \<Rightarrow> Some (b\<lparr>stageFlags := stageFlags b OR stageFlags db\<rparr>))
            else entry n bs)"
  using assms
  by (induction bs arbitrary: bs') (auto split: sum.splits if_splits)

lemma merge_binding_bindings:
  assumes "merge_binding db bs = Inr bs'"
  shows "map binding bs' =
           (if binding db \<in> set (map binding bs) then map binding bs
            else map binding bs @ [binding db])"
  using assms
  by (induction bs arbitrary: bs') (auto split: sum.splits if_splits)

lemma entry_None_iff: "entry n bs = None \<longleftrightarrow> n \<notin> set (map binding bs)"
  by (induction bs) auto

lemma entry_Some_binding: "entry n bs = Some b \<Longrightarrow> binding b = n \<and> b \<in> set bs"
  by (induction bs) (auto split: if_splits)

lemma entry_distinct:
  "distinct (map binding bs) \<Longrightarrow> b \<in> set bs \<Longrightarrow> entry (binding b) bs = Some b"
  by (induction bs) auto

lemma merge_all_entry:
  assumes "merge_all ds bs = Inr bs'"
  shows "entry n bs' =
           (case entry n bs of
              Some b \<Rightarrow> Some (b\<lparr>stageFlags := stageFlags b OR union_flags n ds\<rparr>)
            | None \<Rightarrow>
                (case entry n ds of
                   None \<Rightarrow> None
                 | Some d \<Rightarrow> Some (d\<lparr>stageFlags := union_flags n ds\<rparr>)))"
  using assms
proof (induction ds arbitrary: bs)
  case Nil
  then show ?case by (auto split: option.splits)
next
  case (Cons d ds)
  from Cons.prems obtain bs1 where s: "merge_binding d bs = Inr bs1" and r: "merge_all ds bs1 = Inr bs'"
    by (auto split: sum.splits)
  note e1 = merge_binding_entry [OF s, of n]
  note ih = Cons.IH [OF r]
  show ?case
  proof (cases "n = binding d")
    case True
    show ?thesis
    proof (cases "entry n bs")
      case None
      then show ?thesis using ih e1 True by (simp add: or.assoc)
    next
      case (Some b)
      then show ?thesis using ih e1 True by (simp add: or.assoc)
    qed
  next
    case False
    then have "binding d \<noteq> n" by simp
    then show ?thesis using ih e1 False by (simp split: option.splits)
  qed
qed

lemma merge_all_agree_first:
  assumes "merge_all ds bs = Inr bs'" and "d \<in> set ds"
  shows "case entry (binding d) bs of
           Some b \<Rightarrow> descriptorType b = descriptorType d \<and> descriptorCount b = descriptorCount d
         | None \<Rightarrow>
             (case entry (binding d) ds of
                Some d0 \<Rightarrow> descriptorType d0 = descriptorType d \<and> descriptorCount d0 = descriptorCount d
              | None \<Rightarrow> False)"
  using assms
proof (induction ds arbitrary: bs)
  case Nil
  then show ?case by simp
next
  case (Cons x ds)
  from Cons.prems obtain bs1 where s: "merge_binding x bs = Inr bs1" and r: "merge_all ds bs1 = Inr bs'"
    by (auto split: sum.splits)
  have nofail: "\<not> (\<exists>e. merge_binding x bs = Inl e)" using s by simp
  note e1 = merge_binding_entry [OF s, of "binding d"]
  show ?case
  proof (cases "d = x")
    case True
    then show ?thesis
      using nofail unfolding merge_binding_fails_iff by (auto split: option.splits)
  next
    case False
    with Cons.prems have d: "d \<in> set ds" by simp
    note ih = Cons.IH [OF r d]
    show ?thesis
    proof (cases "binding d = binding x")
      case True
      then show ?thesis
        using ih e1 nofail unfolding merge_binding_fails_iff
        by (auto split: option.splits)
    next
      case False
      then show ?thesis using ih e1 by (auto split: option.splits)
    qed
  qed
qed

lemma merge_all_bindings:
  assumes "merge_all ds bs = Inr bs'"
  shows "set (map binding bs') = set (map binding bs) \<union> set (map binding ds)
     \<and> (distinct (map binding bs) \<longrightarrow> distinct (map binding bs'))"
  using assms
proof (induction ds arbitrary: bs)
  case Nil
  then show ?case by simp
next
  case (Cons x ds)
  from Cons.prems obtain bs1 where s: "merge_binding x bs = Inr bs1" and r: "merge_all ds bs1 = Inr bs'"
    by (auto split: sum.splits)
  from merge_binding_bindings [OF s]
  have 1: "set (map binding bs1) = set (map binding bs) \<union> {binding x}"
    and 2: "distinct (map binding bs) \<longrightarrow> distinct (map binding bs1)"
    by (auto split: if_splits)
  from Cons.IH [OF r] 1 2 show ?case by auto
qed

lemma merge_all_error:
  "merge_all ds bs = Inl e
     \<Longrightarrow> e = Runtime_error ''descriptor type mismatch''
         \<or> e = Runtime_error ''descriptor count mismatch''"
  by (induction ds arbitrary: bs) (auto split: sum.splits dest: merge_binding_error)

lemma merge_all_agree:
  assumes "merge_all ds [] = Inr bs'" and "d1 \<in> set ds" and "d2 \<in> set ds"
  shows "agree d1 d2"
proof (cases "binding d1 = binding d2")
  case True
  from merge_all_agree_first [OF assms(1,2)] merge_all_agree_first [OF assms(1,3)] True
  show ?thesis by (auto simp: agree_def split: option.splits)
next
  case False
  then show ?thesis by (simp add: agree_def)
qed

lemma merge_all_succeeds:
  assumes "\<forall>d1 \<in> set ds. \<forall>d2 \<in> set ds. agree d1 d2"
    and "\<forall>d \<in> set ds. \<forall>b. entry (binding d) bs = Some b \<longrightarrow>
           descriptorType b = descriptorType d \<and> descriptorCount b = descriptorCount d"
  shows "\<exists>bs'. merge_all ds bs = Inr bs'"
  using assms
proof (induction ds arbitrary: bs)
  case Nil
  then show ?case by simp
next
  case (Cons x ds)
  have "\<not> (\<exists>e. merge_binding x bs = Inl e)"
    unfolding merge_binding_fails_iff using Cons.prems(2) by auto
  then obtain bs1 where s: "merge_binding x bs = Inr bs1"
    by (cases "merge_binding x bs") auto
  have "\<forall>d \<in> set ds. \<forall>b. entry (binding d) bs1 = Some b \<longrightarrow>
           descriptorType b = descriptorType d \<and> descriptorCount b = descriptorCount d"
  proof (intro ballI allI impI)
    fix d b
    assume d: "d \<in> set ds" and b: "entry (binding d) bs1 = Some b"
    have ag: "agree x d" using Cons.prems(1) d by simp
    from Cons.prems(2) d have old: "\<forall>b. entry (binding d) bs = Some b \<longrightarrow>
           descriptorType b = descriptorType d \<and> descriptorCount b = descriptorCount d"
      by simp
    from b merge_binding_entry [OF s, of "binding d"] ag old
    show "descriptorType b = descriptorType d \<and> descriptorCount b = descriptorCount d"
      by (auto simp: agree_def split: if_splits option.splits)
  qed
  moreover have "\<forall>d1 \<in> set ds. \<forall>d2 \<in> set ds. agree d1 d2" using Cons.prems(1) by simp
  ultimately obtain bs' where "merge_all ds bs1 = Inr bs'" using Cons.IH by blast
  with s show ?case by simp
qed

text \<open>
  C7: let the declarations be the bindings derived from the descriptors of the
  per-object set, over all stages. If every two declarations with the same binding
  number have the same descriptor type and count, the merge succeeds with exactly one
  binding per declared binding number, whose type and count are those declared and whose
  stage flags are the union of the stage flags of all its declarations. If two
  declarations of one binding number differ in type or in count, the merge, and with it
  the construction of the material, fails with the type-mismatch or the count-mismatch
  error.
\<close>

theorem per_object_bindings_merge:
  assumes "narrow (of_nat (length (shared_layouts contract))) = Inr k"
  shows "((\<forall>d1 \<in> set (declarations k stages). \<forall>d2 \<in> set (declarations k stages). agree d1 d2)
          \<longrightarrow> (\<exists>bs. per_object_bindings narrow contract stages = Inr bs
                \<and> distinct (map binding bs)
                \<and> set (map binding bs) = set (map binding (declarations k stages))
                \<and> (\<forall>b \<in> set bs.
                      stageFlags b = union_flags (binding b) (declarations k stages)
                    \<and> (\<forall>d \<in> set (declarations k stages). binding d = binding b \<longrightarrow>
                          descriptorType d = descriptorType b
                        \<and> descriptorCount d = descriptorCount b))))
     \<and> ((\<exists>d1 \<in> set (declarations k stages). \<exists>d2 \<in> set (declarations k stages). \<not> agree d1 d2)
          \<longrightarrow> per_object_bindings narrow contract stages
                = Inl (Runtime_error ''descriptor type mismatch'')
              \<or> per_object_bindings narrow contract stages
                = Inl (Runtime_error ''descriptor count mismatch''))"
proof -
  let ?ds = "declarations k stages"
  have run: "per_object_bindings narrow contract stages = merge_all ?ds []"
    using assms by (simp add: per_object_bindings_def merge_stages_eq_merge_all)
  have ok: "\<exists>bs. merge_all ?ds [] = Inr bs
                \<and> distinct (map binding bs)
                \<and> set (map binding bs) = set (map binding ?ds)
                \<and> (\<forall>b \<in> set bs.
                      stageFlags b = union_flags (binding b) ?ds
                    \<and> (\<forall>d \<in> set ?ds. binding d = binding b \<longrightarrow>
                          descriptorType d = descriptorType b
                        \<and> descriptorCount d = descriptorCount b))"
    if ag: "\<forall>d1 \<in> set ?ds. \<forall>d2 \<in> set ?ds. agree d1 d2"
  proof -
    from merge_all_succeeds [of ?ds "[]"] ag obtain bs where bs: "merge_all ?ds [] = Inr bs"
      by auto
    from merge_all_bindings [OF bs]
    have dist: "distinct (map binding bs)" and dom: "set (map binding bs) = set (map binding ?ds)"
      by simp_all
    have each: "stageFlags b = union_flags (binding b) ?ds
                    \<and> (\<forall>d \<in> set ?ds. binding d = binding b \<longrightarrow>
                          descriptorType d = descriptorType b
                        \<and> descriptorCount d = descriptorCount b)"
      if b: "b \<in> set bs" for b
    proof -
      define X where "X = union_flags (binding b) ?ds"
      have eb: "entry (binding b) bs = Some b" using dist b by (rule entry_distinct)
      have me: "entry (binding b) bs =
          (case entry (binding b) ?ds of
             None \<Rightarrow> None
           | Some d \<Rightarrow> Some (d\<lparr>stageFlags := X\<rparr>))"
        using merge_all_entry [OF bs, of "binding b"] unfolding X_def by simp
      show ?thesis
      proof (cases "entry (binding b) ?ds")
        case None
        with me eb show ?thesis by simp
      next
        case (Some d0)
        with me have "entry (binding b) bs = Some (d0\<lparr>stageFlags := X\<rparr>)" by simp
        with eb have beq: "b = d0\<lparr>stageFlags := X\<rparr>" by simp
        from entry_Some_binding [OF Some]
        have d0in: "d0 \<in> set ?ds" and d0b: "binding d0 = binding b"
          by simp_all
        have t1: "descriptorType b = descriptorType d0" by (subst beq) simp
        have t2: "descriptorCount b = descriptorCount d0" by (subst beq) simp
        have "stageFlags b = X" by (subst beq) simp
        then have t3: "stageFlags b = union_flags (binding b) ?ds" by (simp only: X_def)
        have "descriptorType d = descriptorType b \<and> descriptorCount d = descriptorCount b"
          if "d \<in> set ?ds" "binding d = binding b" for d
        proof -
          have "agree d0 d" using ag d0in that(1) by blast
          then show ?thesis using that(2) d0b t1 t2 by (simp add: agree_def)
        qed
        then show ?thesis using t3 by blast
      qed
    qed
    show ?thesis using bs dist dom each by blast
  qed
  have bad: "merge_all ?ds [] = Inl (Runtime_error ''descriptor type mismatch'')
              \<or> merge_all ?ds [] = Inl (Runtime_error ''descriptor count mismatch'')"
    if "\<exists>d1 \<in> set ?ds. \<exists>d2 \<in> set ?ds. \<not> agree d1 d2"
  proof (cases "merge_all ?ds []")
    case (Inl e)
    then show ?thesis using merge_all_error [OF Inl] by simp
  next
    case (Inr bs)
    from that obtain d1 d2 where "d1 \<in> set ?ds" "d2 \<in> set ?ds" "\<not> agree d1 d2" by blast
    with merge_all_agree [OF Inr] show ?thesis by blast
  qed
  show ?thesis unfolding run using ok bad by blast
qed

lemma example_declarations:
  "declarations 1 [vertex_stage, fragment_stage]
     = [\<lparr>binding = 3, descriptorType = UNIFORM_BUFFER, descriptorCount = 1, stageFlags = 1\<rparr>,
        \<lparr>binding = 3, descriptorType = UNIFORM_BUFFER, descriptorCount = 1, stageFlags = 16\<rparr>,
        \<lparr>binding = 1, descriptorType = COMBINED_IMAGE_SAMPLER, descriptorCount = 1,
         stageFlags = 16\<rparr>]"
  by (simp add: declarations_def stage_declarations_def vertex_stage_def fragment_stage_def)

lemma example_bad_declarations:
  "declarations 1 [vertex_stage, sampler_stage]
     = [\<lparr>binding = 3, descriptorType = UNIFORM_BUFFER, descriptorCount = 1, stageFlags = 1\<rparr>,
        \<lparr>binding = 3, descriptorType = COMBINED_IMAGE_SAMPLER, descriptorCount = 1,
         stageFlags = 16\<rparr>]"
  by (simp add: declarations_def stage_declarations_def vertex_stage_def sampler_stage_def)

lemma example_merge:
  "per_object_bindings checked_narrow example_contract [vertex_stage, fragment_stage]
     = Inr [\<lparr>binding = 3, descriptorType = UNIFORM_BUFFER, descriptorCount = 1, stageFlags = 17\<rparr>,
            \<lparr>binding = 1, descriptorType = COMBINED_IMAGE_SAMPLER, descriptorCount = 1,
             stageFlags = 16\<rparr>]"
  by (simp add: per_object_bindings_def checked_narrow_def example_contract_def
      vertex_stage_def fragment_stage_def)

lemma example_merge_mismatch:
  "per_object_bindings checked_narrow example_contract [vertex_stage, sampler_stage]
     = Inl (Runtime_error ''descriptor type mismatch'')"
  by (simp add: per_object_bindings_def checked_narrow_def example_contract_def
      vertex_stage_def sampler_stage_def)

theorem per_object_bindings_merge_witness:
  "checked_narrow (of_nat (length (shared_layouts example_contract))) = Inr 1
   \<and> (\<exists>bs. per_object_bindings checked_narrow example_contract [vertex_stage, fragment_stage]
            = Inr bs
        \<and> distinct (map binding bs)
        \<and> set (map binding bs) = {3, 1}
        \<and> (\<exists>b. b \<in> set bs \<and> binding b = 3 \<and> descriptorType b = UNIFORM_BUFFER
               \<and> descriptorCount b = 1 \<and> stageFlags b = 17))
   \<and> (per_object_bindings checked_narrow example_contract [vertex_stage, sampler_stage]
         = Inl (Runtime_error ''descriptor type mismatch'')
       \<or> per_object_bindings checked_narrow example_contract [vertex_stage, sampler_stage]
         = Inl (Runtime_error ''descriptor count mismatch''))"
proof -
  have k: "checked_narrow (of_nat (length (shared_layouts example_contract))) = Inr 1"
    by (simp add: checked_narrow_def example_contract_def)
  have good: "\<forall>d1 \<in> set (declarations 1 [vertex_stage, fragment_stage]).
      \<forall>d2 \<in> set (declarations 1 [vertex_stage, fragment_stage]). agree d1 d2"
    by (simp add: example_declarations agree_def)
  have bad: "\<exists>d1 \<in> set (declarations 1 [vertex_stage, sampler_stage]).
      \<exists>d2 \<in> set (declarations 1 [vertex_stage, sampler_stage]). \<not> agree d1 d2"
    by (simp add: example_bad_declarations agree_def)
  from per_object_bindings_merge [of checked_narrow example_contract 1 "[vertex_stage, fragment_stage]"] k good
  obtain bs where bs:
    "per_object_bindings checked_narrow example_contract [vertex_stage, fragment_stage] = Inr bs"
    "distinct (map binding bs)"
    "set (map binding bs) = set (map binding (declarations 1 [vertex_stage, fragment_stage]))"
    "\<forall>b \<in> set bs.
        stageFlags b = union_flags (binding b) (declarations 1 [vertex_stage, fragment_stage])
      \<and> (\<forall>d \<in> set (declarations 1 [vertex_stage, fragment_stage]). binding d = binding b \<longrightarrow>
            descriptorType d = descriptorType b \<and> descriptorCount d = descriptorCount b)"
    by blast
  from bs(3) have dom: "set (map binding bs) = {3, 1}" by (simp add: example_declarations)
  then have "(3 :: 32 word) \<in> set (map binding bs)" by simp
  then obtain b where b: "b \<in> set bs" "binding b = 3" by auto
  with bs(4) have "stageFlags b = 17 \<and> descriptorType b = UNIFORM_BUFFER \<and> descriptorCount b = 1"
    by (auto simp: example_declarations)
  with b have ex: "\<exists>b. b \<in> set bs \<and> binding b = 3 \<and> descriptorType b = UNIFORM_BUFFER
               \<and> descriptorCount b = 1 \<and> stageFlags b = 17"
    by blast
  from per_object_bindings_merge [of checked_narrow example_contract 1 "[vertex_stage, sampler_stage]"] k bad
  have "per_object_bindings checked_narrow example_contract [vertex_stage, sampler_stage]
         = Inl (Runtime_error ''descriptor type mismatch'')
       \<or> per_object_bindings checked_narrow example_contract [vertex_stage, sampler_stage]
         = Inl (Runtime_error ''descriptor count mismatch'')"
    by blast
  with k bs(1,2) dom ex show ?thesis by blast
qed

section \<open>Properties of the device calls\<close>

text \<open>
  A failure status of the table is thrown with its code; any other failure status ends
  in \<open>fail_fast()\<close> while the exception is being built.
\<close>

lemma check_failure:
  "r \<noteq> VK_SUCCESS \<Longrightarrow> to_string r = Inr s \<Longrightarrow> check r = Inl (System_error r)"
  by (simp add: check_def)

lemma check_unlisted:
  "r \<noteq> VK_SUCCESS \<Longrightarrow> to_string r = Inl e \<Longrightarrow> check r = Inl e"
  by (simp add: check_def)

lemma check_unlisted_example: "check 42 = Inl Fail_fast"
  by (simp add: check_def to_string_def to_string_cases_def VK_SUCCESS_def)

lemma to_string_out_of_device_memory:
  "to_string VK_ERROR_OUT_OF_DEVICE_MEMORY = Inr ''VK_ERROR_OUT_OF_DEVICE_MEMORY''"
  by (simp add: to_string_def to_string_cases_def VK_ERROR_OUT_OF_DEVICE_MEMORY_def)

text \<open>Every checked call of the constructor surfaces its status.\<close>

lemma static_buffer_ctor_checked:
  assumes "static_buffer_ctor dev mem_props mem_reqs memory_properties = Inr ()"
  shows "vkCreateBuffer dev = VK_SUCCESS \<and> vkAllocateMemory dev = VK_SUCCESS
     \<and> vkAllocateCommandBuffers dev = VK_SUCCESS \<and> vkBeginCommandBuffer dev = VK_SUCCESS
     \<and> vkEndCommandBuffer dev = VK_SUCCESS \<and> vkQueueSubmit dev = VK_SUCCESS
     \<and> vkQueueWaitIdle dev = VK_SUCCESS"
  using assms
  by (auto simp: static_buffer_ctor_def allocate_def begin_transient_def end_transient_def
      check_Inr_iff split: sum.splits)

text \<open>The status of \<open>vkBindBufferMemory\<close> has no effect on either constructor.\<close>

lemma bind_status_ignored:
  "static_buffer_ctor (dev\<lparr>vkBindBufferMemory := r\<rparr>) mem_props mem_reqs memory_properties
     = static_buffer_ctor dev mem_props mem_reqs memory_properties
   \<and> context_staging (dev\<lparr>vkBindBufferMemory := r\<rparr>) mem_props mem_reqs
     = context_staging dev mem_props mem_reqs"
  by (simp add: static_buffer_ctor_def context_staging_def allocate_def begin_transient_def
      end_transient_def split: sum.splits)

text \<open>
  C9 fails on the code. Where the device answers \<open>VK_ERROR_OUT_OF_DEVICE_MEMORY\<close> to
  \<open>vkBindBufferMemory\<close> and succeeds otherwise, \<open>static_buffer::static_buffer\<close> and the
  staging set-up of \<open>context::context\<close> both return normally: the failure is ignored.
  The same status from \<open>vkCreateBuffer\<close>, which is wrapped in \<open>check\<close>, is thrown with
  the code.
\<close>

theorem bind_buffer_memory_failure_ignored:
  "static_buffer_ctor (all_success\<lparr>vkBindBufferMemory := VK_ERROR_OUT_OF_DEVICE_MEMORY\<rparr>)
     example_mem_props example_mem_reqs 1 = Inr ()
   \<and> context_staging (all_success\<lparr>vkBindBufferMemory := VK_ERROR_OUT_OF_DEVICE_MEMORY\<rparr>)
       example_mem_props example_mem_reqs = Inr ()
   \<and> static_buffer_ctor (all_success\<lparr>vkCreateBuffer := VK_ERROR_OUT_OF_DEVICE_MEMORY\<rparr>)
       example_mem_props example_mem_reqs 1 = Inl (System_error VK_ERROR_OUT_OF_DEVICE_MEMORY)
   \<and> VK_ERROR_OUT_OF_DEVICE_MEMORY \<noteq> VK_SUCCESS"
proof -
  have ne: "VK_ERROR_OUT_OF_DEVICE_MEMORY \<noteq> VK_SUCCESS"
    by (simp add: VK_SUCCESS_def VK_ERROR_OUT_OF_DEVICE_MEMORY_def)
  have z: "check 0 = Inr ()" using check_success by (simp add: VK_SUCCESS_def)
  have f: "check VK_ERROR_OUT_OF_DEVICE_MEMORY = Inl (System_error VK_ERROR_OUT_OF_DEVICE_MEMORY)"
    using ne to_string_out_of_device_memory by (rule check_failure)
  have m: "select_memory_type example_mem_props example_mem_reqs 1 = Inr 0"
    "select_memory_type example_mem_props example_mem_reqs 6 = Inr 0"
    by (simp_all add: select_memory_type_def example_mem_props_def example_mem_reqs_def)
  show ?thesis
    using ne
    by (simp add: static_buffer_ctor_def context_staging_def allocate_def begin_transient_def
        end_transient_def all_success_def z f m)
qed

end
